theory Spec2Isabelle
  imports
    Complex_Main
    "HOL-Library.Product_Lexorder"
    "HOL-Library.List_Lexorder"
    "HOL-Library.AList"
    "HOL-Library.Multiset"
begin

section \<open>Strings, constants and records of the two engines\<close>

text \<open>
  A Python \<open>str\<close> is the list of its code points. Equality and \<open>sorted\<close> compare
  code points, so the lexicographic order on \<open>nat list\<close> is the order of Python strings.
  A literal of the source is written \<open>lit ''talk''\<close>.
\<close>

type_synonym str = "nat list"

definition lit :: "string \<Rightarrow> str" where
  "lit s = map of_char s"

text \<open>
  \<open>str.strip()\<close> removes leading and trailing whitespace; \<open>isspace\<close> lists the code
  points that Python counts as whitespace.
\<close>

definition isspace :: "nat \<Rightarrow> bool" where
  "isspace c \<longleftrightarrow>
     (9 \<le> c \<and> c \<le> 13) \<or> (28 \<le> c \<and> c \<le> 32) \<or> c = 133 \<or> c = 160 \<or> c = 5760 \<or>
     (8192 \<le> c \<and> c \<le> 8202) \<or> c = 8232 \<or> c = 8233 \<or> c = 8239 \<or> c = 8287 \<or> c = 12288"

definition strip :: "str \<Rightarrow> str" where
  "strip s = rev (dropWhile isspace (rev (dropWhile isspace s)))"

definition FINISH_POS :: int where "FINISH_POS = 50"
definition CHECKPOINT_INTERVAL :: int where "CHECKPOINT_INTERVAL = 10"
definition SCORE_PER_THROW :: int where "SCORE_PER_THROW = 40"
definition BASE_POINTS :: int where "BASE_POINTS = 10"
definition TEAM_MEMBER_BONUS_POINTS :: int where "TEAM_MEMBER_BONUS_POINTS = 20"
definition TEAM_MEMBER_BONUS_START :: int where "TEAM_MEMBER_BONUS_START = 3"
definition SET_BONUS_POINTS :: int where "SET_BONUS_POINTS = 40"
definition LINE_BONUS_POINTS :: int where "LINE_BONUS_POINTS = 25"
definition LINE_THRESHOLD :: int where "LINE_THRESHOLD = 3"

definition DIFFICULTY_POINTS :: "(str \<times> int) list" where
  "DIFFICULTY_POINTS = [(lit ''easy'', 10), (lit ''medium'', 20), (lit ''hard'', 30)]"

definition CATEGORIES :: "str list" where
  "CATEGORIES = [lit ''talk'', lit ''teamplay'', lit ''help'', lit ''challenge'']"

text \<open>
  The dataclass \<open>Team\<close>. Variant A has the first seven fields, variant B adds the four
  race fields. A \<open>Dict[str, int]\<close> is an association list, read with \<open>map_of\<close> and
  written with \<open>AList.update\<close>; reading a key that is not there raises \<open>KeyError\<close>.
\<close>

datatype py_error = KeyError

record team_A =
  team_id :: str
  name :: str
  score :: int
  mission_count :: int
  category_count :: "(str \<times> int) list"
  set_bonus_taken :: int
  line_bonus_taken :: "(str \<times> int) list"

record team_B = team_A +
  throw_chance :: int
  throw_granted_by_score :: int
  position :: int
  finished_at :: "str option"

text \<open>
  The text of a log line and the message of a result are f-strings over the values
  below; they are kept as the values they are rendered from.
\<close>

datatype log_text =
    TeamRegistered str
  | ActivityLogged_A str str int str str int int
  | ActivityLogged_B str str int str str int int int
  | FinishLogged str int
  | CaptureLogged str str int
  | CaptureBonusLogged str int int int
  | ThrowLogged str str int int

record log_entry =
  log_at :: str
  log_text :: log_text

datatype message =
    EnterTeamName
  | DuplicateTeamName
  | TeamAdded str
  | InvalidTeam
  | InvalidDifficulty
  | InvalidCategory
  | InvalidParticipantCount
  | ActivityApplied
  | AlreadyFinished
  | NoThrowChance
  | ThrowResult str str int int

text \<open>
  The class \<open>Game\<close>. \<open>saved\<close> is the payload that \<open>save\<close> last handed to
  \<open>json.dumps\<close> and wrote to \<open>STORAGE_FILE\<close>, if this game has saved at all.
\<close>

record ('t, 'p) game =
  teams :: "'t list"
  logs :: "log_entry list"
  saved :: "'p option"

type_synonym payload_A = "team_A list \<times> log_entry list"

type_synonym payload_B = "team_B list \<times> log_entry list \<times> str list"

type_synonym game_A = "(team_A, payload_A) game"

record game_B = "(team_B, payload_B) game" +
  finish_order :: "str list"

definition new_game_A :: game_A where
  "new_game_A = \<lparr>teams = [], logs = [], saved = None\<rparr>"

definition new_game_B :: game_B where
  "new_game_B = \<lparr>teams = [], logs = [], saved = None, finish_order = []\<rparr>"

text \<open>\<open>Team(id=..., name=...)\<close> with the defaults and \<open>__post_init__\<close>.\<close>

definition new_team_A :: "str \<Rightarrow> str \<Rightarrow> team_A" where
  "new_team_A i n =
     \<lparr>team_id = i, name = n, score = 0, mission_count = 0,
      category_count = map (\<lambda>c. (c, 0)) CATEGORIES, set_bonus_taken = 0,
      line_bonus_taken = map (\<lambda>c. (c, 0)) CATEGORIES\<rparr>"

definition new_team_B :: "str \<Rightarrow> str \<Rightarrow> team_B" where
  "new_team_B i n =
     \<lparr>team_id = i, name = n, score = 0, mission_count = 0,
      category_count = map (\<lambda>c. (c, 0)) CATEGORIES, set_bonus_taken = 0,
      line_bonus_taken = map (\<lambda>c. (c, 0)) CATEGORIES,
      throw_chance = 0, throw_granted_by_score = 0, position = 0, finished_at = None\<rparr>"

text \<open>
  \<open>find_team\<close> returns the first team with the id. The methods mutate that object in
  place; \<open>put_team\<close> writes the mutated team back to where \<open>find_team\<close> found it.
\<close>

definition find_team :: "('a team_A_scheme, 'p, 'z) game_scheme \<Rightarrow> str \<Rightarrow> 'a team_A_scheme option" where
  "find_team g tid = find (\<lambda>t. team_id t = tid) (teams g)"

fun put_team :: "'a team_A_scheme \<Rightarrow> 'a team_A_scheme list \<Rightarrow> 'a team_A_scheme list" where
  "put_team t' [] = []"
| "put_team t' (t # ts) = (if team_id t = team_id t' then t' # ts else t # put_team t' ts)"

section \<open>Scoring engine\<close>

text \<open>\<open>all(team.category_count[c] > 0 for c in CATEGORIES)\<close>, which stops at the first zero.\<close>

fun all_positive :: "(str \<times> int) list \<Rightarrow> str list \<Rightarrow> py_error + bool" where
  "all_positive cc [] = Inr True"
| "all_positive cc (c # cs) =
     (case map_of cc c of
        None \<Rightarrow> Inl KeyError
      | Some n \<Rightarrow> if n > 0 then all_positive cc cs else Inr False)"

text \<open>The loop \<open>for c in CATEGORIES\<close> of \<open>compute_bonus\<close>, with the bonus so far.\<close>

fun line_bonus :: "str list \<Rightarrow> int \<Rightarrow> 'a team_A_scheme \<Rightarrow> py_error + (int \<times> 'a team_A_scheme)" where
  "line_bonus [] bonus t = Inr (bonus, t)"
| "line_bonus (c # cs) bonus t =
     (case map_of (category_count t) c of
        None \<Rightarrow> Inl KeyError
      | Some n \<Rightarrow>
          (let ready = n div LINE_THRESHOLD in
           case map_of (line_bonus_taken t) c of
             None \<Rightarrow> Inl KeyError
           | Some taken \<Rightarrow>
               if ready > taken
               then line_bonus cs (bonus + (ready - taken) * LINE_BONUS_POINTS)
                      (t\<lparr>line_bonus_taken := AList.update c ready (line_bonus_taken t)\<rparr>)
               else line_bonus cs bonus t))"

definition compute_bonus :: "'a team_A_scheme \<Rightarrow> py_error + (int \<times> 'a team_A_scheme)" where
  "compute_bonus t =
     (case all_positive (category_count t) CATEGORIES of
        Inl e \<Rightarrow> Inl e
      | Inr done_all \<Rightarrow>
          if done_all \<and> set_bonus_taken t = 0
          then line_bonus CATEGORIES SET_BONUS_POINTS (t\<lparr>set_bonus_taken := 1\<rparr>)
          else line_bonus CATEGORIES 0 t)"

definition apply_score_throw_milestone :: "team_B \<Rightarrow> int \<times> team_B" where
  "apply_score_throw_milestone t =
     (let eligible = score t div SCORE_PER_THROW in
      if eligible \<le> throw_granted_by_score t then (0, t)
      else
        (let gained = eligible - throw_granted_by_score t in
         (gained, t\<lparr>throw_granted_by_score := eligible, throw_chance := throw_chance t + gained\<rparr>)))"

section \<open>Game operations of both variants\<close>

text \<open>
  Every operation is given \<open>now\<close>, the text of
  \<open>datetime.now().isoformat(timespec="seconds")\<close>, and \<open>add_team\<close> is given the string
  that \<open>_new_id\<close> builds from the clock and \<open>random.randint\<close>.
\<close>

definition add_log_A :: "str \<Rightarrow> log_text \<Rightarrow> game_A \<Rightarrow> game_A" where
  "add_log_A now txt g = g\<lparr>logs := take 120 (\<lparr>log_at = now, log_text = txt\<rparr> # logs g)\<rparr>"

definition add_log_B :: "str \<Rightarrow> log_text \<Rightarrow> game_B \<Rightarrow> game_B" where
  "add_log_B now txt g = g\<lparr>logs := take 150 (\<lparr>log_at = now, log_text = txt\<rparr> # logs g)\<rparr>"

definition save_A :: "game_A \<Rightarrow> game_A" where
  "save_A g = g\<lparr>saved := Some (teams g, logs g)\<rparr>"

definition save_B :: "game_B \<Rightarrow> game_B" where
  "save_B g = g\<lparr>saved := Some (teams g, logs g, finish_order g)\<rparr>"

definition add_team_A :: "game_A \<Rightarrow> str \<Rightarrow> str \<Rightarrow> str \<Rightarrow> (bool \<times> message) \<times> game_A" where
  "add_team_A g nm new_id now =
     (let nm' = strip nm in
      if nm' = [] then ((False, EnterTeamName), g)
      else if list_ex (\<lambda>t. name t = nm') (teams g) then ((False, DuplicateTeamName), g)
      else
        ((True, TeamAdded nm'),
         save_A (add_log_A now (TeamRegistered nm') (g\<lparr>teams := teams g @ [new_team_A new_id nm']\<rparr>))))"

definition add_team_B :: "game_B \<Rightarrow> str \<Rightarrow> str \<Rightarrow> str \<Rightarrow> (bool \<times> message) \<times> game_B" where
  "add_team_B g nm new_id now =
     (let nm' = strip nm in
      if nm' = [] then ((False, EnterTeamName), g)
      else if list_ex (\<lambda>t. name t = nm') (teams g) then ((False, DuplicateTeamName), g)
      else
        ((True, TeamAdded nm'),
         save_B (add_log_B now (TeamRegistered nm') (g\<lparr>teams := teams g @ [new_team_B new_id nm']\<rparr>))))"

text \<open>
  \<open>extra_members\<close>, \<open>member_bonus\<close> and \<open>earned\<close> of \<open>record_activity\<close>, for the points
  \<open>dp\<close> found in \<open>DIFFICULTY_POINTS\<close>.
\<close>

definition earned_points :: "int \<Rightarrow> int \<Rightarrow> int" where
  "earned_points dp participant_count =
     (let extra_members = max 0 (participant_count - (TEAM_MEMBER_BONUS_START - 1));
          member_bonus = extra_members * TEAM_MEMBER_BONUS_POINTS
      in BASE_POINTS + dp + member_bonus)"

text \<open>
  \<open>record_activity\<close> returns its pair, or raises \<open>KeyError\<close> when a dictionary of the
  team lacks a category. The model keeps no state for the raising call; the teams of
  every reachable state have all four categories, so it does not raise there.
\<close>

definition record_activity_A ::
  "game_A \<Rightarrow> str \<Rightarrow> str \<Rightarrow> str \<Rightarrow> int \<Rightarrow> str \<Rightarrow> str \<Rightarrow> py_error + ((bool \<times> message) \<times> game_A)" where
  "record_activity_A g tid difficulty category participant_count title now =
     (case find_team g tid of
        None \<Rightarrow> Inr ((False, InvalidTeam), g)
      | Some team \<Rightarrow>
     (case map_of DIFFICULTY_POINTS difficulty of
        None \<Rightarrow> Inr ((False, InvalidDifficulty), g)
      | Some dp \<Rightarrow>
          if category \<notin> set CATEGORIES then Inr ((False, InvalidCategory), g)
          else if participant_count < 1 then Inr ((False, InvalidParticipantCount), g)
          else
            (let earned = earned_points dp participant_count in
             case map_of (category_count team) category of
               None \<Rightarrow> Inl KeyError
             | Some n \<Rightarrow>
                 (case compute_bonus
                    (team\<lparr>score := score team + earned,
                          mission_count := mission_count team + 1,
                          category_count := AList.update category (n + 1) (category_count team)\<rparr>) of
                    Inl e \<Rightarrow> Inl e
                  | Inr (bonus, team2) \<Rightarrow>
                      (let team3 = (if bonus > 0 then team2\<lparr>score := score team2 + bonus\<rparr> else team2)
                       in Inr ((True, ActivityApplied),
                            save_A (add_log_A now
                              (ActivityLogged_A (name team3) (strip title) earned difficulty category
                                 participant_count bonus)
                              (g\<lparr>teams := put_team team3 (teams g)\<rparr>))))))))"

definition record_activity_B ::
  "game_B \<Rightarrow> str \<Rightarrow> str \<Rightarrow> str \<Rightarrow> int \<Rightarrow> str \<Rightarrow> str \<Rightarrow> py_error + ((bool \<times> message) \<times> game_B)" where
  "record_activity_B g tid difficulty category participant_count title now =
     (case find_team g tid of
        None \<Rightarrow> Inr ((False, InvalidTeam), g)
      | Some team \<Rightarrow>
     (case map_of DIFFICULTY_POINTS difficulty of
        None \<Rightarrow> Inr ((False, InvalidDifficulty), g)
      | Some dp \<Rightarrow>
          if category \<notin> set CATEGORIES then Inr ((False, InvalidCategory), g)
          else if participant_count < 1 then Inr ((False, InvalidParticipantCount), g)
          else
            (let earned = earned_points dp participant_count in
             case map_of (category_count team) category of
               None \<Rightarrow> Inl KeyError
             | Some n \<Rightarrow>
                 (case compute_bonus
                    (team\<lparr>score := score team + earned,
                          mission_count := mission_count team + 1,
                          category_count := AList.update category (n + 1) (category_count team)\<rparr>) of
                    Inl e \<Rightarrow> Inl e
                  | Inr (bonus, team2) \<Rightarrow>
                      (let team3 = (if bonus > 0 then team2\<lparr>score := score team2 + bonus\<rparr> else team2);
                           (throws, team4) = apply_score_throw_milestone team3
                       in Inr ((True, ActivityApplied),
                            save_B (add_log_B now
                              (ActivityLogged_B (name team4) (strip title) earned difficulty category
                                 participant_count bonus throws)
                              (g\<lparr>teams := put_team team4 (teams g)\<rparr>))))))))"

definition reset_A :: "game_A \<Rightarrow> game_A" where
  "reset_A g = save_A (g\<lparr>teams := [], logs := []\<rparr>)"



section \<open>Race engine of variant B\<close>

record outcome =
  key :: str
  step :: int
  weight :: int
  extra_throw :: int

text \<open>\<open>YUT_OUTCOMES\<close> without the display labels; the messages name an outcome by its key.\<close>

definition YUT_OUTCOMES :: "outcome list" where
  "YUT_OUTCOMES =
     [\<lparr>key = lit ''do'', step = 1, weight = 34, extra_throw = 0\<rparr>,
      \<lparr>key = lit ''gae'', step = 2, weight = 26, extra_throw = 0\<rparr>,
      \<lparr>key = lit ''geol'', step = 3, weight = 17, extra_throw = 0\<rparr>,
      \<lparr>key = lit ''yut'', step = 4, weight = 11, extra_throw = 1\<rparr>,
      \<lparr>key = lit ''mo'', step = 5, weight = 8, extra_throw = 1\<rparr>,
      \<lparr>key = lit ''backdo'', step = - 1, weight = 4, extra_throw = 0\<rparr>]"

text \<open>
  \<open>draw_yut\<close>, given the number \<open>r\<close> that \<open>random.uniform(0, total_weight)\<close> returns. The
  sums of the weights are whole numbers, which floats hold exactly, so the comparison
  \<open>r <= acc\<close> is the comparison of the real numbers.
\<close>

fun draw_loop :: "real \<Rightarrow> real \<Rightarrow> outcome list \<Rightarrow> outcome option" where
  "draw_loop r acc [] = None"
| "draw_loop r acc (y # ys) =
     (let acc' = acc + of_int (weight y) in
      if r \<le> acc' then Some y else draw_loop r acc' ys)"

definition draw_yut :: "real \<Rightarrow> outcome" where
  "draw_yut r = (case draw_loop r 0 YUT_OUTCOMES of Some y \<Rightarrow> y | None \<Rightarrow> hd YUT_OUTCOMES)"

text \<open>Truth value of an \<open>Optional[str]\<close>: \<open>None\<close> and the empty string are false.\<close>

definition truthy :: "str option \<Rightarrow> bool" where
  "truthy x = (case x of None \<Rightarrow> False | Some s \<Rightarrow> s \<noteq> [])"

text \<open>
  \<open>ensure_finish\<close>, \<open>capture_opponents\<close> and \<open>throw_yut\<close> work on the team object that
  \<open>find_team\<close> returned. The model passes that team beside the game and returns it;
  \<open>throw_yut\<close> writes it back at the end. The other teams are read and written in the game.
\<close>

definition ensure_finish :: "game_B \<Rightarrow> team_B \<Rightarrow> str \<Rightarrow> game_B \<times> team_B" where
  "ensure_finish g team now =
     (if position team \<ge> FINISH_POS \<and> \<not> truthy (finished_at team) then
        (let team1 = team\<lparr>position := FINISH_POS, finished_at := Some now\<rparr>;
             g1 = g\<lparr>finish_order := finish_order g @ [team_id team1]\<rparr>;
             team2 = team1\<lparr>score := score team1 + 50\<rparr>;
             (throws, team3) = apply_score_throw_milestone team2
         in (add_log_B now (FinishLogged (name team3) throws) g1, team3))
      else (g, team))"

definition is_captured :: "team_B \<Rightarrow> team_B \<Rightarrow> bool" where
  "is_captured actor t \<longleftrightarrow>
     team_id t \<noteq> team_id actor \<and> \<not> truthy (finished_at t) \<and> position t = position actor"

definition checkpoint_of :: "team_B \<Rightarrow> int" where
  "checkpoint_of enemy = (position enemy div CHECKPOINT_INTERVAL) * CHECKPOINT_INTERVAL"

text \<open>The loop \<open>for enemy in captured\<close>: one log line for each captured team, in order.\<close>

fun log_captures :: "str \<Rightarrow> team_B \<Rightarrow> team_B list \<Rightarrow> game_B \<Rightarrow> game_B" where
  "log_captures now actor [] g = g"
| "log_captures now actor (enemy # es) g =
     log_captures now actor es
       (add_log_B now (CaptureLogged (name actor) (name enemy) (checkpoint_of enemy)) g)"

definition capture_opponents :: "game_B \<Rightarrow> team_B \<Rightarrow> str \<Rightarrow> game_B \<times> team_B" where
  "capture_opponents g actor now =
     (if position actor \<le> 0 \<or> position actor \<ge> FINISH_POS then (g, actor)
      else
        (let captured = filter (is_captured actor) (teams g) in
         if captured = [] then (g, actor)
         else
           (let g1 = log_captures now actor captured
                       (g\<lparr>teams := map (\<lambda>t. if is_captured actor t
                                             then t\<lparr>position := checkpoint_of t\<rparr> else t) (teams g)\<rparr>);
                gain = 30 * int (length captured);
                actor1 = actor\<lparr>score := score actor + gain,
                               throw_chance := throw_chance actor + int (length captured)\<rparr>;
                (milestone_throws, actor2) = apply_score_throw_milestone actor1
            in (add_log_B now
                  (CaptureBonusLogged (name actor2) gain (int (length captured)) milestone_throws) g1,
                actor2))))"

definition throw_yut :: "game_B \<Rightarrow> str \<Rightarrow> real \<Rightarrow> str \<Rightarrow> (bool \<times> message) \<times> game_B" where
  "throw_yut g tid r now =
     (case find_team g tid of
        None \<Rightarrow> ((False, InvalidTeam), g)
      | Some team \<Rightarrow>
          if truthy (finished_at team) then ((False, AlreadyFinished), g)
          else if throw_chance team \<le> 0 then ((False, NoThrowChance), g)
          else
            (let yut = draw_yut r;
                 team1 = team\<lparr>throw_chance := throw_chance team - 1\<rparr>;
                 team2 = team1\<lparr>position := max 0 (position team1 + step yut)\<rparr>;
                 (g1, team3) = ensure_finish g team2 now;
                 (g2, team4) = (if \<not> truthy (finished_at team3)
                                then capture_opponents g1 team3 now else (g1, team3));
                 team5 = (if extra_throw yut > 0
                          then team4\<lparr>throw_chance := throw_chance team4 + extra_throw yut\<rparr>
                          else team4);
                 g3 = add_log_B now (ThrowLogged (name team5) (key yut) (step yut) (extra_throw yut)) g2
             in ((True, ThrowResult (name team5) (key yut) (step yut) (extra_throw yut)),
                 save_B (g3\<lparr>teams := put_team team5 (teams g3)\<rparr>))))"

definition reset_B :: "game_B \<Rightarrow> game_B" where
  "reset_B g = save_B (g\<lparr>teams := [], logs := [], finish_order := []\<rparr>)"





section \<open>The claims' vocabulary\<close>

text \<open>
  A team is well formed when both of its dictionaries have the four categories as keys,
  as \<open>__post_init__\<close> makes them. \<open>lookup\<close> reads a dictionary where the key is known
  to be there.
\<close>

definition has_categories :: "(str \<times> int) list \<Rightarrow> bool" where
  "has_categories d = list_all (\<lambda>c. map_of d c \<noteq> None) CATEGORIES"

definition team_ok :: "'a team_A_scheme \<Rightarrow> bool" where
  "team_ok t \<longleftrightarrow> has_categories (category_count t) \<and> has_categories (line_bonus_taken t)"

definition lookup :: "(str \<times> int) list \<Rightarrow> str \<Rightarrow> int" where
  "lookup d c = (case map_of d c of Some n \<Rightarrow> n | None \<Rightarrow> 0)"

definition all_done :: "'a team_A_scheme \<Rightarrow> bool" where
  "all_done t = list_all (\<lambda>c. lookup (category_count t) c > 0) CATEGORIES"

definition tier :: "'a team_A_scheme \<Rightarrow> str \<Rightarrow> int" where
  "tier t c = lookup (category_count t) c div 3"

definition line_gain :: "'a team_A_scheme \<Rightarrow> str \<Rightarrow> int" where
  "line_gain t c =
     (if tier t c > lookup (line_bonus_taken t) c
      then (tier t c - lookup (line_bonus_taken t) c) * 25 else 0)"

definition set_gain :: "'a team_A_scheme \<Rightarrow> int" where
  "set_gain t = (if all_done t \<and> set_bonus_taken t = 0 then 40 else 0)"

text \<open>A variant A team after three activities in the category talk.\<close>

definition talk3 :: team_A where
  "talk3 = (new_team_A (lit ''team_1_1000'') (lit ''A''))
     \<lparr>score := 60, mission_count := 3,
      category_count := [(lit ''talk'', 3), (lit ''teamplay'', 0), (lit ''help'', 0), (lit ''challenge'', 0)]\<rparr>"

text \<open>
  The claim's formula for the points of one activity, the bonus that \<open>compute_bonus\<close>
  grants a team, and the team with one more activity counted in a category.
\<close>

definition earned_spec :: "int \<Rightarrow> int \<Rightarrow> int" where
  "earned_spec difficulty_points participant_count =
     10 + difficulty_points + max 0 (participant_count - 2) * 20"

definition bonus_spec :: "'a team_A_scheme \<Rightarrow> int" where
  "bonus_spec t = set_gain t + (\<Sum>c\<leftarrow>CATEGORIES. line_gain t c)"

definition counted :: "'a team_A_scheme \<Rightarrow> str \<Rightarrow> 'a team_A_scheme" where
  "counted t c =
     t\<lparr>category_count := AList.update c (lookup (category_count t) c + 1) (category_count t)\<rparr>"

text \<open>
  What one recorded activity adds to team \<open>t\<close>, giving \<open>t'\<close>: the earned points and the
  bonus evaluated on the incremented counts, one mission, one count in the category.
\<close>

definition activity_added :: "'a team_A_scheme \<Rightarrow> str \<Rightarrow> int \<Rightarrow> int \<Rightarrow> 'a team_A_scheme \<Rightarrow> bool" where
  "activity_added t c dp n t' \<longleftrightarrow>
     score t' = score t + earned_spec dp n + bonus_spec (counted t c) \<and>
     mission_count t' = mission_count t + 1 \<and>
     lookup (category_count t') c = lookup (category_count t) c + 1 \<and>
     list_all (\<lambda>c'. c' = c \<or> lookup (category_count t') c' = lookup (category_count t) c') CATEGORIES"

text \<open>Teams with one activity in each of three categories, for the concrete runs.\<close>

definition three_done_A :: team_A where
  "three_done_A = (new_team_A (lit ''team_1_1000'') (lit ''A''))
     \<lparr>score := 60, mission_count := 3,
      category_count := [(lit ''talk'', 1), (lit ''teamplay'', 1), (lit ''help'', 1), (lit ''challenge'', 0)]\<rparr>"

definition three_done_B :: team_B where
  "three_done_B = (new_team_B (lit ''team_1_1000'') (lit ''A''))
     \<lparr>score := 60, mission_count := 3,
      category_count := [(lit ''talk'', 1), (lit ''teamplay'', 1), (lit ''help'', 1), (lit ''challenge'', 0)],
      throw_chance := 1, throw_granted_by_score := 1\<rparr>"

text \<open>
  The claim's words for a capture by the team \<open>tid\<close> that has just moved to cell \<open>p\<close>:
  the teams that share the cell (another id, not finished, position exactly \<open>p\<close>), the
  team list with those teams sent back to the checkpoint \<open>(p div 10) * 10\<close>, and how many
  they are.
\<close>

definition shares_cell :: "str \<Rightarrow> int \<Rightarrow> team_B \<Rightarrow> bool" where
  "shares_cell tid p u \<longleftrightarrow> team_id u \<noteq> tid \<and> \<not> truthy (finished_at u) \<and> position u = p"

definition revert_captured :: "str \<Rightarrow> int \<Rightarrow> team_B list \<Rightarrow> team_B list" where
  "revert_captured tid p ts =
     map (\<lambda>u. if shares_cell tid p u then u\<lparr>position := (p div 10) * 10\<rparr> else u) ts"

definition captured_count :: "str \<Rightarrow> int \<Rightarrow> team_B list \<Rightarrow> int" where
  "captured_count tid p ts = int (length (filter (shares_cell tid p) ts))"

text \<open>Teams on the track for the concrete runs: one at cell 48, one at 11 and one at 13.\<close>

definition near_finish :: team_B where
  "near_finish = (new_team_B (lit ''team_1_1000'') (lit ''A''))
     \<lparr>score := 40, mission_count := 1, throw_chance := 1, throw_granted_by_score := 1, position := 48\<rparr>"

definition chaser :: team_B where
  "chaser = (new_team_B (lit ''team_1_1000'') (lit ''A''))
     \<lparr>score := 40, mission_count := 1, throw_chance := 1, throw_granted_by_score := 1, position := 11\<rparr>"

definition runner :: team_B where
  "runner = (new_team_B (lit ''team_2_2000'') (lit ''B''))
     \<lparr>score := 40, mission_count := 1, throw_granted_by_score := 1, position := 13\<rparr>"

text \<open>
  The validation failures the claims list: a team name that is empty after stripping or
  already taken; an unknown team, difficulty or category or a participant count below 1;
  a throw for an unknown team, a finished team or a team without a chance.
\<close>

definition invalid_team_name :: "('a team_A_scheme, 'p, 'z) game_scheme \<Rightarrow> str \<Rightarrow> bool" where
  "invalid_team_name g nm \<longleftrightarrow> strip nm = [] \<or> list_ex (\<lambda>t. name t = strip nm) (teams g)"

definition invalid_activity :: "('a team_A_scheme, 'p, 'z) game_scheme \<Rightarrow> str \<Rightarrow> str \<Rightarrow> str \<Rightarrow> int \<Rightarrow> bool" where
  "invalid_activity g tid difficulty category participant_count \<longleftrightarrow>
     find_team g tid = None \<or> difficulty \<notin> set (map fst DIFFICULTY_POINTS) \<or>
     category \<notin> set CATEGORIES \<or> participant_count < 1"

definition invalid_throw :: "game_B \<Rightarrow> str \<Rightarrow> bool" where
  "invalid_throw g tid \<longleftrightarrow>
     (case find_team g tid of
        None \<Rightarrow> True
      | Some t \<Rightarrow> truthy (finished_at t) \<or> throw_chance t \<le> 0)"

definition failed :: "(bool \<times> message) \<times> 'g \<Rightarrow> bool" where
  "failed res \<longleftrightarrow> \<not> fst (fst res)"

text \<open>
  The states of variant B that a fresh \<open>Game()\<close> reaches through its public operations.
  \<open>sorted_teams\<close> changes nothing. The text of a timestamp is never empty.
\<close>

inductive reachable :: "game_B \<Rightarrow> bool" where
  fresh: "reachable new_game_B"
| team_added: "reachable g \<Longrightarrow> reachable (snd (add_team_B g nm new_id now))"
| activity_recorded:
    "reachable g \<Longrightarrow> record_activity_B g tid d c n title now = Inr (res, g') \<Longrightarrow> reachable g'"
| thrown: "reachable g \<Longrightarrow> now \<noteq> [] \<Longrightarrow> reachable (snd (throw_yut g tid r now))"
| was_reset: "reachable g \<Longrightarrow> reachable (reset_B g)"

text \<open>
  The invariant of the race: what holds of each team, and how \<open>finish_order\<close> relates to
  the team that \<open>find_team\<close> returns for an id.
\<close>

definition team_inv :: "team_B \<Rightarrow> bool" where
  "team_inv t \<longleftrightarrow>
     0 \<le> position t \<and> position t \<le> 50 \<and>
     (finished_at t = None) = (position t \<noteq> 50) \<and> finished_at t \<noteq> Some [] \<and>
     throw_granted_by_score t = score t div 40 \<and> team_ok t"

definition order_inv :: "team_B list \<Rightarrow> str list \<Rightarrow> bool" where
  "order_inv ts fo \<longleftrightarrow>
     distinct fo \<and>
     (\<forall>x. (x \<in> set fo) = (\<exists>t. find (\<lambda>u. team_id u = x) ts = Some t \<and> position t = 50))"

definition game_inv :: "game_B \<Rightarrow> bool" where
  "game_inv g \<longleftrightarrow> list_all team_inv (teams g) \<and> order_inv (teams g) (finish_order g)"

text \<open>
  A run in which \<open>_new_id\<close> builds the same id twice: both teams are added in the same
  millisecond and \<open>random.randint\<close> draws 1234 both times. Team A then records one
  activity and throws ten times, each draw giving mo.
\<close>

definition twin_id :: str where
  "twin_id = lit ''team_1700000000000_1234''"

definition twin_now :: str where
  "twin_now = lit ''2026-01-01T00:00:00''"

definition twin_start :: game_B where
  "twin_start = snd (add_team_B (snd (add_team_B new_game_B (lit ''A'') twin_id twin_now))
     (lit ''B'') twin_id twin_now)"

definition twin_scored :: game_B where
  "twin_scored =
     (case record_activity_B twin_start twin_id (lit ''hard'') (lit ''talk'') 3 [] twin_now of
        Inr (res, g) \<Rightarrow> g | Inl e \<Rightarrow> twin_start)"




text \<open>A team that has finished the race, as a finishing throw leaves it.\<close>

definition finished_scorer :: team_B where
  "finished_scorer = (new_team_B (lit ''team_1_1000'') (lit ''A''))
     \<lparr>score := 110, mission_count := 1, throw_chance := 2, throw_granted_by_score := 2,
      position := 50, finished_at := Some (lit ''2026-01-01T00:00:00'')\<rparr>"








section \<open>Loading a snapshot in variant B\<close>




















section \<open>Properties of the scoring engine\<close>

lemma distinct_CATEGORIES: "distinct CATEGORIES"
  by (simp add: CATEGORIES_def lit_def)

lemma all_positive_ok:
  "\<forall>c\<in>set cs. map_of cc c \<noteq> None \<Longrightarrow>
   all_positive cc cs = Inr (list_all (\<lambda>c. lookup cc c > 0) cs)"
  by (induction cs) (auto simp: lookup_def)

lemma map_fst_update: "map_of d c \<noteq> None \<Longrightarrow> map fst (AList.update c v d) = map fst d"
  by (induction d) auto

lemma line_bonus_spec:
  "distinct cs \<Longrightarrow>
   \<forall>c\<in>set cs. map_of (category_count t) c \<noteq> None \<and> map_of (line_bonus_taken t) c \<noteq> None \<Longrightarrow>
   \<exists>L'. line_bonus cs b t = Inr (b + (\<Sum>c\<leftarrow>cs. line_gain t c), t\<lparr>line_bonus_taken := L'\<rparr>) \<and>
        map fst L' = map fst (line_bonus_taken t) \<and>
        (\<forall>c. map_of L' c =
               (if c \<in> set cs \<and> tier t c > lookup (line_bonus_taken t) c
                then Some (tier t c) else map_of (line_bonus_taken t) c))"
proof (induction cs arbitrary: b t)
  case Nil
  show ?case
    by (rule exI [of _ "line_bonus_taken t"]) simp
next
  case (Cons c cs)
  from Cons.prems obtain n k where n: "map_of (category_count t) c = Some n"
    and k: "map_of (line_bonus_taken t) c = Some k" by auto
  from Cons.prems have notin: "c \<notin> set cs" and dist: "distinct cs" by auto
  show ?case
  proof (cases "n div 3 > k")
    case True
    let ?t1 = "t\<lparr>line_bonus_taken := AList.update c (n div 3) (line_bonus_taken t)\<rparr>"
    have pre: "\<forall>c\<in>set cs. map_of (category_count ?t1) c \<noteq> None \<and> map_of (line_bonus_taken ?t1) c \<noteq> None"
      using Cons.prems by (auto simp: update_conv')
    from Cons.IH [OF dist pre, of "b + (n div 3 - k) * 25"]
    obtain L' where L: "line_bonus cs (b + (n div 3 - k) * 25) ?t1 =
        Inr (b + (n div 3 - k) * 25 + (\<Sum>c\<leftarrow>cs. line_gain ?t1 c), ?t1\<lparr>line_bonus_taken := L'\<rparr>)"
      and keys: "map fst L' = map fst (line_bonus_taken ?t1)"
      and look: "\<forall>c'. map_of L' c' =
               (if c' \<in> set cs \<and> tier ?t1 c' > lookup (line_bonus_taken ?t1) c'
                then Some (tier ?t1 c') else map_of (line_bonus_taken ?t1) c')"
      by blast
    have same: "\<And>c'. c' \<in> set cs \<Longrightarrow> line_gain ?t1 c' = line_gain t c'"
      using notin by (auto simp: line_gain_def tier_def lookup_def update_conv')
    have sum: "(\<Sum>c\<leftarrow>cs. line_gain ?t1 c) = (\<Sum>c\<leftarrow>cs. line_gain t c)"
      using same by (simp cong: map_cong)
    have gc: "line_gain t c = (n div 3 - k) * 25"
      using True n k by (simp add: line_gain_def tier_def lookup_def)
    show ?thesis
    proof (intro exI [of _ L'] conjI allI)
      show "line_bonus (c # cs) b t =
        Inr (b + (\<Sum>c\<leftarrow>c # cs. line_gain t c), t\<lparr>line_bonus_taken := L'\<rparr>)"
        using True n k L sum gc by (simp add: LINE_THRESHOLD_def LINE_BONUS_POINTS_def)
      show "map fst L' = map fst (line_bonus_taken t)"
        using keys k by (simp add: map_fst_update)
      fix c'
      show "map_of L' c' =
               (if c' \<in> set (c # cs) \<and> tier t c' > lookup (line_bonus_taken t) c'
                then Some (tier t c') else map_of (line_bonus_taken t) c')"
        using look [rule_format, of c'] notin True n k
        by (auto simp: tier_def lookup_def update_conv')
    qed
  next
    case False
    have pre: "\<forall>c\<in>set cs. map_of (category_count t) c \<noteq> None \<and> map_of (line_bonus_taken t) c \<noteq> None"
      using Cons.prems by auto
    from Cons.IH [OF dist pre, of b]
    obtain L' where L: "line_bonus cs b t =
        Inr (b + (\<Sum>c\<leftarrow>cs. line_gain t c), t\<lparr>line_bonus_taken := L'\<rparr>)"
      and keys: "map fst L' = map fst (line_bonus_taken t)"
      and look: "\<forall>c'. map_of L' c' =
               (if c' \<in> set cs \<and> tier t c' > lookup (line_bonus_taken t) c'
                then Some (tier t c') else map_of (line_bonus_taken t) c')"
      by blast
    have gc: "line_gain t c = 0"
      using False n k by (simp add: line_gain_def tier_def lookup_def)
    show ?thesis
    proof (intro exI [of _ L'] conjI allI)
      show "line_bonus (c # cs) b t =
        Inr (b + (\<Sum>c\<leftarrow>c # cs. line_gain t c), t\<lparr>line_bonus_taken := L'\<rparr>)"
        using False n k L gc by (simp add: LINE_THRESHOLD_def LINE_BONUS_POINTS_def)
      show "map fst L' = map fst (line_bonus_taken t)"
        using keys by simp
      fix c'
      show "map_of L' c' =
               (if c' \<in> set (c # cs) \<and> tier t c' > lookup (line_bonus_taken t) c'
                then Some (tier t c') else map_of (line_bonus_taken t) c')"
        using look [rule_format, of c'] False n k
        by (auto simp: tier_def lookup_def)
    qed
  qed
qed

lemma line_bonus_nothing:
  "\<forall>c\<in>set cs. map_of (category_count t) c \<noteq> None \<and> map_of (line_bonus_taken t) c \<noteq> None \<Longrightarrow>
   \<forall>c\<in>set cs. \<not> tier t c > lookup (line_bonus_taken t) c \<Longrightarrow>
   line_bonus cs b t = Inr (b, t)"
  by (induction cs arbitrary: b) (auto simp: tier_def lookup_def LINE_THRESHOLD_def)

lemma team_ok_keys:
  "team_ok t \<Longrightarrow> c \<in> set CATEGORIES \<Longrightarrow>
   map_of (category_count t) c \<noteq> None \<and> map_of (line_bonus_taken t) c \<noteq> None"
  by (simp add: team_ok_def has_categories_def list_all_iff)

lemma compute_bonus_spec:
  assumes ok: "team_ok t"
  shows "\<exists>L'. compute_bonus t =
           Inr (set_gain t + (\<Sum>c\<leftarrow>CATEGORIES. line_gain t c),
                t\<lparr>set_bonus_taken := (if all_done t \<and> set_bonus_taken t = 0 then 1 else set_bonus_taken t),
                  line_bonus_taken := L'\<rparr>) \<and>
         map fst L' = map fst (line_bonus_taken t) \<and>
         (\<forall>c. map_of L' c =
               (if c \<in> set CATEGORIES \<and> tier t c > lookup (line_bonus_taken t) c
                then Some (tier t c) else map_of (line_bonus_taken t) c))"
proof -
  have keys: "\<forall>c\<in>set CATEGORIES. map_of (category_count t) c \<noteq> None \<and> map_of (line_bonus_taken t) c \<noteq> None"
    using ok by (simp add: team_ok_keys)
  then have ap: "all_positive (category_count t) CATEGORIES = Inr (all_done t)"
    by (simp add: all_positive_ok all_done_def)
  show ?thesis
  proof (cases "all_done t \<and> set_bonus_taken t = 0")
    case True
    let ?t1 = "t\<lparr>set_bonus_taken := 1\<rparr>"
    have keys1: "\<forall>c\<in>set CATEGORIES. map_of (category_count ?t1) c \<noteq> None \<and> map_of (line_bonus_taken ?t1) c \<noteq> None"
      using keys by simp
    have g: "\<And>c. line_gain ?t1 c = line_gain t c" "\<And>c. tier ?t1 c = tier t c"
      by (simp_all add: line_gain_def tier_def)
    from line_bonus_spec [OF distinct_CATEGORIES keys1, of SET_BONUS_POINTS]
    obtain L' where "line_bonus CATEGORIES SET_BONUS_POINTS ?t1 =
        Inr (SET_BONUS_POINTS + (\<Sum>c\<leftarrow>CATEGORIES. line_gain ?t1 c), ?t1\<lparr>line_bonus_taken := L'\<rparr>)"
      "map fst L' = map fst (line_bonus_taken ?t1)"
      "\<forall>c. map_of L' c =
               (if c \<in> set CATEGORIES \<and> tier ?t1 c > lookup (line_bonus_taken ?t1) c
                then Some (tier ?t1 c) else map_of (line_bonus_taken ?t1) c)"
      by blast
    then show ?thesis using True ap
      by (intro exI [of _ L']) (simp add: compute_bonus_def set_gain_def g SET_BONUS_POINTS_def)
  next
    case False
    from line_bonus_spec [OF distinct_CATEGORIES keys, of 0]
    show ?thesis using False ap
      by (auto simp add: compute_bonus_def set_gain_def)
  qed
qed

lemma line_step:
  "(n - 1) div 3 < n div (3::int) \<longleftrightarrow> n mod 3 = 0"
  "n mod 3 = 0 \<Longrightarrow> n div 3 - (n - 1) div (3::int) = 1"
  by presburger+

text \<open>
  Claim C2. For a well-formed team of either variant, \<open>compute_bonus\<close> returns the set
  bonus of 40 exactly when all four counts are positive and \<open>set_bonus_taken\<close> is 0, and
  then sets \<open>set_bonus_taken\<close> to 1; for each category it adds
  \<open>(tier - line_bonus_taken[c]) * 25\<close> when \<open>tier = count div 3\<close> exceeds
  \<open>line_bonus_taken[c]\<close> and stores the tier; no other field changes; a second evaluation
  grants nothing. Where \<open>line_bonus_taken[c]\<close> holds the tier of the count before an
  activity, the activity that brings the count to a multiple of 3 (the 3rd, the 6th)
  gains 25 and every other one (the 4th, the 5th) gains 0.
\<close>

theorem compute_bonus_grants:
  assumes ok: "team_ok t"
  shows "\<exists>t'. compute_bonus t = Inr (set_gain t + (\<Sum>c\<leftarrow>CATEGORIES. line_gain t c), t') \<and>
     set_bonus_taken t' = (if all_done t \<and> set_bonus_taken t = 0 then 1 else set_bonus_taken t) \<and>
     (\<forall>c. lookup (line_bonus_taken t') c =
            (if c \<in> set CATEGORIES then max (lookup (line_bonus_taken t) c) (tier t c)
             else lookup (line_bonus_taken t) c)) \<and>
     t' = t\<lparr>set_bonus_taken := set_bonus_taken t', line_bonus_taken := line_bonus_taken t'\<rparr> \<and>
     compute_bonus t' = Inr (0, t') \<and>
     (\<forall>c. lookup (line_bonus_taken t) c = (lookup (category_count t) c - 1) div 3 \<longrightarrow>
           line_gain t c = (if lookup (category_count t) c mod 3 = 0 then 25 else 0))"
proof -
  from compute_bonus_spec [OF ok] obtain L' where
    cb: "compute_bonus t =
           Inr (set_gain t + (\<Sum>c\<leftarrow>CATEGORIES. line_gain t c),
                t\<lparr>set_bonus_taken := (if all_done t \<and> set_bonus_taken t = 0 then 1 else set_bonus_taken t),
                  line_bonus_taken := L'\<rparr>)"
    and keys: "map fst L' = map fst (line_bonus_taken t)"
    and look: "\<forall>c. map_of L' c =
               (if c \<in> set CATEGORIES \<and> tier t c > lookup (line_bonus_taken t) c
                then Some (tier t c) else map_of (line_bonus_taken t) c)"
    by blast
  let ?t' = "t\<lparr>set_bonus_taken := (if all_done t \<and> set_bonus_taken t = 0 then 1 else set_bonus_taken t),
                  line_bonus_taken := L'\<rparr>"
  have lk: "\<And>c. lookup L' c =
            (if c \<in> set CATEGORIES then max (lookup (line_bonus_taken t) c) (tier t c)
             else lookup (line_bonus_taken t) c)"
    using look by (auto simp: lookup_def max_def)
  have keys': "\<forall>c\<in>set CATEGORIES. map_of (category_count ?t') c \<noteq> None \<and> map_of (line_bonus_taken ?t') c \<noteq> None"
    using team_ok_keys [OF ok] look by auto
  have ap: "all_positive (category_count ?t') CATEGORIES = Inr (all_done t)"
    using keys' by (simp add: all_positive_ok all_done_def)
  have no: "\<forall>c\<in>set CATEGORIES. \<not> tier ?t' c > lookup (line_bonus_taken ?t') c"
    using lk by (simp add: tier_def)
  have again: "compute_bonus ?t' = Inr (0, ?t')"
    using ap line_bonus_nothing [OF keys' no, of 0]
    by (auto simp: compute_bonus_def)
  have step: "\<forall>c. lookup (line_bonus_taken t) c = (lookup (category_count t) c - 1) div 3 \<longrightarrow>
           line_gain t c = (if lookup (category_count t) c mod 3 = 0 then 25 else 0)"
    by (simp add: line_gain_def tier_def line_step)
  show ?thesis
    apply (rule exI [of _ ?t'])
    using cb lk again step by simp
qed

theorem compute_bonus_grants_witness:
  "team_ok talk3 \<and>
   (\<exists>t'. compute_bonus talk3 = Inr (25, t') \<and> set_bonus_taken t' = 0 \<and>
         lookup (line_bonus_taken t') (lit ''talk'') = 1 \<and> compute_bonus t' = Inr (0, t'))"
proof -
  have ok: "team_ok talk3"
    by (simp add: team_ok_def has_categories_def talk3_def new_team_A_def CATEGORIES_def lit_def)
  have v: "set_gain talk3 + (\<Sum>c\<leftarrow>CATEGORIES. line_gain talk3 c) = 25"
    "\<not> all_done talk3" "set_bonus_taken talk3 = 0"
    "max (lookup (line_bonus_taken talk3) (lit ''talk'')) (tier talk3 (lit ''talk'')) = 1"
    "lit ''talk'' \<in> set CATEGORIES"
    by (simp_all add: set_gain_def all_done_def line_gain_def tier_def lookup_def talk3_def
        new_team_A_def CATEGORIES_def lit_def)
  from compute_bonus_grants [OF ok] obtain t' where
    "compute_bonus talk3 = Inr (set_gain talk3 + (\<Sum>c\<leftarrow>CATEGORIES. line_gain talk3 c), t')"
    "set_bonus_taken t' = (if all_done talk3 \<and> set_bonus_taken talk3 = 0 then 1 else set_bonus_taken talk3)"
    "\<forall>c. lookup (line_bonus_taken t') c =
            (if c \<in> set CATEGORIES then max (lookup (line_bonus_taken talk3) c) (tier talk3 c)
             else lookup (line_bonus_taken talk3) c)"
    "compute_bonus t' = Inr (0, t')"
    by blast
  then show ?thesis using ok v by auto
qed

lemma find_put_team:
  "find (\<lambda>t. team_id t = tid) ts = Some t \<Longrightarrow> team_id t' = tid \<Longrightarrow>
   find (\<lambda>t. team_id t = tid) (put_team t' ts) = Some t'"
  by (induction ts) (auto split: if_splits)

lemma find_team_id: "find (\<lambda>t. team_id t = tid) ts = Some t \<Longrightarrow> team_id t = tid"
  by (induction ts) (auto split: if_splits)

lemma milestone_result:
  "apply_score_throw_milestone t =
     (max 0 (score t div 40 - throw_granted_by_score t),
      t\<lparr>throw_granted_by_score := max (throw_granted_by_score t) (score t div 40),
        throw_chance := throw_chance t + max 0 (score t div 40 - throw_granted_by_score t)\<rparr>)"
  by (simp add: apply_score_throw_milestone_def SCORE_PER_THROW_def Let_def max_def)

lemma earned_points_eq: "earned_points dp n = earned_spec dp n"
  by (simp add: earned_points_def earned_spec_def BASE_POINTS_def TEAM_MEMBER_BONUS_START_def
      TEAM_MEMBER_BONUS_POINTS_def)

lemma team_ok_counted: "team_ok t \<Longrightarrow> team_ok (counted t c)"
  by (simp add: team_ok_def has_categories_def counted_def update_conv' list_all_iff)

lemma line_gain_nonneg: "0 \<le> line_gain t c"
  by (simp add: line_gain_def)

lemma bonus_spec_nonneg: "0 \<le> bonus_spec t"
proof -
  have "0 \<le> (\<Sum>c\<leftarrow>CATEGORIES. line_gain t c)"
    by (rule sum_list_nonneg) (auto simp: line_gain_nonneg)
  then show ?thesis
    by (simp add: bonus_spec_def set_gain_def)
qed

lemma difficulty_points_of:
  "(d, dp) \<in> set DIFFICULTY_POINTS \<Longrightarrow> map_of DIFFICULTY_POINTS d = Some dp"
  by (auto simp: DIFFICULTY_POINTS_def lit_def)

lemma compute_bonus_counted:
  assumes ok: "team_ok t" and c: "c \<in> set CATEGORIES"
  shows "\<exists>t2. compute_bonus
           (t\<lparr>score := s, mission_count := m,
              category_count := AList.update c (lookup (category_count t) c + 1) (category_count t)\<rparr>) =
           Inr (bonus_spec (counted t c), t2) \<and>
         score t2 = s \<and> mission_count t2 = m \<and> team_id t2 = team_id t \<and> name t2 = name t \<and>
         category_count t2 = category_count (counted t c) \<and>
         team_A.more t2 = team_A.more t"
proof -
  let ?u = "t\<lparr>score := s, mission_count := m,
              category_count := AList.update c (lookup (category_count t) c + 1) (category_count t)\<rparr>"
  have oku: "team_ok ?u"
    using team_ok_counted [OF ok, of c] by (simp add: team_ok_def counted_def)
  have lg: "\<And>c'. line_gain ?u c' = line_gain (counted t c) c'"
    by (simp add: line_gain_def tier_def counted_def)
  have sg: "set_gain ?u = set_gain (counted t c)"
    by (simp add: set_gain_def all_done_def counted_def)
  have same: "bonus_spec ?u = bonus_spec (counted t c)"
    by (simp only: bonus_spec_def lg sg)
  from compute_bonus_spec [OF oku] same show ?thesis
    by (auto simp: bonus_spec_def counted_def)
qed

lemma lookup_update: "lookup (AList.update c v d) c' = (if c' = c then v else lookup d c')"
  by (simp add: lookup_def update_conv')

lemma team_ok_lookup:
  "team_ok t \<Longrightarrow> c \<in> set CATEGORIES \<Longrightarrow> map_of (category_count t) c = Some (lookup (category_count t) c)"
  using team_ok_keys [of t c] by (auto simp: lookup_def)

lemma activity_addedI:
  "score t' = score t + earned_points dp n + bonus_spec (counted t c) \<Longrightarrow>
   mission_count t' = mission_count t + 1 \<Longrightarrow>
   category_count t' = category_count (counted t c) \<Longrightarrow>
   activity_added t c dp n t'"
  by (simp add: activity_added_def earned_points_eq counted_def lookup_update list_all_iff)

lemma record_activity_A_run:
  assumes "find_team g tid = Some t" "map_of DIFFICULTY_POINTS d = Some dp" "c \<in> set CATEGORIES"
    "1 \<le> n" "map_of (category_count t) c = Some k"
    "compute_bonus (t\<lparr>score := score t + earned_points dp n, mission_count := mission_count t + 1,
        category_count := AList.update c (k + 1) (category_count t)\<rparr>) = Inr (b, t2)"
  shows "record_activity_A g tid d c n title now =
    Inr ((True, ActivityApplied),
      save_A (add_log_A now
        (ActivityLogged_A (name (if b > 0 then t2\<lparr>score := score t2 + b\<rparr> else t2)) (strip title)
           (earned_points dp n) d c n b)
        (g\<lparr>teams := put_team (if b > 0 then t2\<lparr>score := score t2 + b\<rparr> else t2) (teams g)\<rparr>)))"
  using assms by (simp add: record_activity_A_def Let_def)

lemma find_team_save_A [simp]: "find_team (save_A g) tid = find_team g tid"
  by (simp add: find_team_def save_A_def)

lemma find_team_add_log_A [simp]: "find_team (add_log_A now x g) tid = find_team g tid"
  by (simp add: find_team_def add_log_A_def)

lemma find_team_put:
  "find_team g tid = Some t \<Longrightarrow> team_id t' = team_id t \<Longrightarrow>
   find_team (g\<lparr>teams := put_team t' (teams g)\<rparr>) tid = Some t'"
  using find_put_team [of tid "teams g" t t'] find_team_id [of tid "teams g" t]
  by (simp add: find_team_def)

lemma record_activity_A_adds:
  assumes f: "find_team g tid = Some t" and ok: "team_ok t"
    and d: "(d, dp) \<in> set DIFFICULTY_POINTS" and c: "c \<in> set CATEGORIES" and n: "1 \<le> n"
  shows "\<exists>g' t'. record_activity_A g tid d c n title now = Inr ((True, ActivityApplied), g') \<and>
           find_team g' tid = Some t' \<and> activity_added t c dp n t'"
proof -
  let ?s = "score t + earned_points dp n" and ?m = "mission_count t + 1"
  let ?b = "bonus_spec (counted t c)"
  from compute_bonus_counted [OF ok c, where s = ?s and m = ?m] obtain t2 where
    cb: "compute_bonus
           (t\<lparr>score := ?s, mission_count := ?m,
              category_count := AList.update c (lookup (category_count t) c + 1) (category_count t)\<rparr>) =
           Inr (?b, t2)"
    and t2: "score t2 = ?s" "mission_count t2 = ?m" "team_id t2 = team_id t"
      "category_count t2 = category_count (counted t c)"
    by blast
  let ?t3 = "if ?b > 0 then t2\<lparr>score := score t2 + ?b\<rparr> else t2"
  have run: "record_activity_A g tid d c n title now =
    Inr ((True, ActivityApplied),
      save_A (add_log_A now
        (ActivityLogged_A (name ?t3) (strip title) (earned_points dp n) d c n ?b)
        (g\<lparr>teams := put_team ?t3 (teams g)\<rparr>)))"
    by (rule record_activity_A_run [OF f difficulty_points_of [OF d] c n team_ok_lookup [OF ok c] cb])
  have id3: "team_id ?t3 = team_id t"
    using t2 by simp
  have found: "find_team (g\<lparr>teams := put_team ?t3 (teams g)\<rparr>) tid = Some ?t3"
    by (rule find_team_put [OF f id3])
  have sc: "score ?t3 = score t + earned_points dp n + ?b"
    using t2 bonus_spec_nonneg [of "counted t c"] by simp
  have added: "activity_added t c dp n ?t3"
    by (rule activity_addedI [OF sc]) (simp_all add: t2)
  show ?thesis
    unfolding run using found added by simp
qed

lemma record_activity_B_run:
  assumes "find_team g tid = Some t" "map_of DIFFICULTY_POINTS d = Some dp" "c \<in> set CATEGORIES"
    "1 \<le> n" "map_of (category_count t) c = Some k"
    "compute_bonus (t\<lparr>score := score t + earned_points dp n, mission_count := mission_count t + 1,
        category_count := AList.update c (k + 1) (category_count t)\<rparr>) = Inr (b, t2)"
    "t3 = (if b > 0 then t2\<lparr>score := score t2 + b\<rparr> else t2)"
  shows "record_activity_B g tid d c n title now =
    Inr ((True, ActivityApplied),
      save_B (add_log_B now
        (ActivityLogged_B (name (snd (apply_score_throw_milestone t3))) (strip title)
           (earned_points dp n) d c n b (fst (apply_score_throw_milestone t3)))
        (g\<lparr>teams := put_team (snd (apply_score_throw_milestone t3)) (teams g)\<rparr>)))"
  using assms by (simp add: record_activity_B_def Let_def split_beta)

lemma find_team_save_B [simp]: "find_team (save_B g) tid = find_team g tid"
  by (simp add: find_team_def save_B_def)

lemma find_team_add_log_B [simp]: "find_team (add_log_B now x g) tid = find_team g tid"
  by (simp add: find_team_def add_log_B_def)

lemma milestone_keeps:
  "score (snd (apply_score_throw_milestone t)) = score t"
  "mission_count (snd (apply_score_throw_milestone t)) = mission_count t"
  "team_id (snd (apply_score_throw_milestone t)) = team_id t"
  "name (snd (apply_score_throw_milestone t)) = name t"
  "category_count (snd (apply_score_throw_milestone t)) = category_count t"
  "line_bonus_taken (snd (apply_score_throw_milestone t)) = line_bonus_taken t"
  "set_bonus_taken (snd (apply_score_throw_milestone t)) = set_bonus_taken t"
  "position (snd (apply_score_throw_milestone t)) = position t"
  "finished_at (snd (apply_score_throw_milestone t)) = finished_at t"
  by (simp_all add: milestone_result)

lemma record_activity_B_adds:
  assumes f: "find_team g tid = Some t" and ok: "team_ok t"
    and d: "(d, dp) \<in> set DIFFICULTY_POINTS" and c: "c \<in> set CATEGORIES" and n: "1 \<le> n"
  shows "\<exists>g' t'. record_activity_B g tid d c n title now = Inr ((True, ActivityApplied), g') \<and>
           find_team g' tid = Some t' \<and> activity_added t c dp n t'"
proof -
  let ?s = "score t + earned_points dp n" and ?m = "mission_count t + 1"
  let ?b = "bonus_spec (counted t c)"
  from compute_bonus_counted [OF ok c, where s = ?s and m = ?m] obtain t2 where
    cb: "compute_bonus
           (t\<lparr>score := ?s, mission_count := ?m,
              category_count := AList.update c (lookup (category_count t) c + 1) (category_count t)\<rparr>) =
           Inr (?b, t2)"
    and t2: "score t2 = ?s" "mission_count t2 = ?m" "team_id t2 = team_id t"
      "category_count t2 = category_count (counted t c)"
    by blast
  define t3 where "t3 = (if ?b > 0 then t2\<lparr>score := score t2 + ?b\<rparr> else t2)"
  let ?t4 = "snd (apply_score_throw_milestone t3)"
  have run: "record_activity_B g tid d c n title now =
    Inr ((True, ActivityApplied),
      save_B (add_log_B now
        (ActivityLogged_B (name ?t4) (strip title) (earned_points dp n) d c n ?b
           (fst (apply_score_throw_milestone t3)))
        (g\<lparr>teams := put_team ?t4 (teams g)\<rparr>)))"
    by (rule record_activity_B_run
        [OF f difficulty_points_of [OF d] c n team_ok_lookup [OF ok c] cb t3_def])
  have id4: "team_id ?t4 = team_id t"
    using t2 by (simp add: milestone_keeps t3_def)
  have found: "find_team (g\<lparr>teams := put_team ?t4 (teams g)\<rparr>) tid = Some ?t4"
    by (rule find_team_put [OF f id4])
  have sc: "score ?t4 = score t + earned_points dp n + ?b"
    using t2 bonus_spec_nonneg [of "counted t c"] by (simp add: milestone_keeps t3_def)
  have added: "activity_added t c dp n ?t4"
    by (rule activity_addedI [OF sc]) (simp_all add: t2 milestone_keeps t3_def)
  show ?thesis
    unfolding run using found added by simp
qed

text \<open>
  Claim C1. For an existing well-formed team, a difficulty of \<open>DIFFICULTY_POINTS\<close> with its
  points \<open>dp\<close>, one of the four categories and a participant count of at least 1,
  \<open>record_activity\<close> of either variant succeeds and the team it leaves has
  \<open>10 + dp + max 0 (n - 2) * 20\<close> more score plus the bonus, one more mission and one more
  count in the category; the bonus is the one \<open>compute_bonus\<close> grants on the counts
  after the increment, so the call that completes a set or a line is the call that is paid.
\<close>

theorem record_activity_adds:
  assumes "(d, dp) \<in> set DIFFICULTY_POINTS" and "c \<in> set CATEGORIES" and "1 \<le> n"
    and "find_team gA tid = Some tA" and "team_ok tA"
    and "find_team gB tid = Some tB" and "team_ok tB"
  shows "(\<exists>g' t'. record_activity_A gA tid d c n title now = Inr ((True, ActivityApplied), g') \<and>
            find_team g' tid = Some t' \<and> activity_added tA c dp n t') \<and>
         (\<exists>g' t'. record_activity_B gB tid d c n title now = Inr ((True, ActivityApplied), g') \<and>
            find_team g' tid = Some t' \<and> activity_added tB c dp n t')"
  using assms by (intro conjI record_activity_A_adds record_activity_B_adds)

theorem record_activity_adds_witness:
  "(lit ''easy'', 10) \<in> set DIFFICULTY_POINTS \<and> lit ''challenge'' \<in> set CATEGORIES \<and> (1::int) \<le> 3 \<and>
   find_team (new_game_A\<lparr>teams := [three_done_A]\<rparr>) (lit ''team_1_1000'') = Some three_done_A \<and>
   team_ok three_done_A \<and>
   find_team (new_game_B\<lparr>teams := [three_done_B]\<rparr>) (lit ''team_1_1000'') = Some three_done_B \<and>
   team_ok three_done_B \<and>
   (\<exists>g' t'. record_activity_A (new_game_A\<lparr>teams := [three_done_A]\<rparr>) (lit ''team_1_1000'')
              (lit ''easy'') (lit ''challenge'') 3 [] (lit ''2026-01-01T00:00:00'') =
              Inr ((True, ActivityApplied), g') \<and>
            find_team g' (lit ''team_1_1000'') = Some t' \<and> score t' = 140 \<and> mission_count t' = 4 \<and>
            lookup (category_count t') (lit ''challenge'') = 1) \<and>
   (\<exists>g' t'. record_activity_B (new_game_B\<lparr>teams := [three_done_B]\<rparr>) (lit ''team_1_1000'')
              (lit ''easy'') (lit ''challenge'') 3 [] (lit ''2026-01-01T00:00:00'') =
              Inr ((True, ActivityApplied), g') \<and>
            find_team g' (lit ''team_1_1000'') = Some t' \<and> score t' = 140 \<and> mission_count t' = 4 \<and>
            lookup (category_count t') (lit ''challenge'') = 1)"
proof -
  have h1: "(lit ''easy'', 10) \<in> set DIFFICULTY_POINTS"
    by (simp add: DIFFICULTY_POINTS_def)
  have h2: "lit ''challenge'' \<in> set CATEGORIES"
    by (simp add: CATEGORIES_def)
  have h3: "(1::int) \<le> 3" by simp
  have h4: "find_team (new_game_A\<lparr>teams := [three_done_A]\<rparr>) (lit ''team_1_1000'') = Some three_done_A"
    by (simp add: find_team_def three_done_A_def new_team_A_def)
  have h5: "team_ok three_done_A"
    by (simp add: team_ok_def has_categories_def three_done_A_def new_team_A_def CATEGORIES_def lit_def)
  have h6: "find_team (new_game_B\<lparr>teams := [three_done_B]\<rparr>) (lit ''team_1_1000'') = Some three_done_B"
    by (simp add: find_team_def three_done_B_def new_team_B_def)
  have h7: "team_ok three_done_B"
    by (simp add: team_ok_def has_categories_def three_done_B_def new_team_B_def CATEGORIES_def lit_def)
  have vA: "earned_spec 10 3 = 40" "bonus_spec (counted three_done_A (lit ''challenge'')) = 40"
    "score three_done_A = 60" "mission_count three_done_A = 3"
    "lookup (category_count three_done_A) (lit ''challenge'') = 0"
    by (simp_all add: earned_spec_def bonus_spec_def counted_def set_gain_def all_done_def
        line_gain_def tier_def lookup_def three_done_A_def new_team_A_def CATEGORIES_def lit_def)
  have vB: "bonus_spec (counted three_done_B (lit ''challenge'')) = 40"
    "score three_done_B = 60" "mission_count three_done_B = 3"
    "lookup (category_count three_done_B) (lit ''challenge'') = 0"
    by (simp_all add: bonus_spec_def counted_def set_gain_def all_done_def
        line_gain_def tier_def lookup_def three_done_B_def new_team_B_def CATEGORIES_def lit_def)
  from record_activity_adds [OF h1 h2 h3 h4 h5 h6 h7, of "[]" "lit ''2026-01-01T00:00:00''"]
  show ?thesis
    using h1 h2 h3 h4 h5 h6 h7 unfolding activity_added_def vA vB by (simp, blast)
qed

section \<open>Properties of the race engine\<close>

lemma add_log_B_fields [simp]:
  "teams (add_log_B now x g) = teams g"
  "finish_order (add_log_B now x g) = finish_order g"
  "saved (add_log_B now x g) = saved g"
  by (simp_all add: add_log_B_def)

lemma save_B_fields [simp]:
  "teams (save_B g) = teams g"
  "finish_order (save_B g) = finish_order g"
  "logs (save_B g) = logs g"
  by (simp_all add: save_B_def)

lemma log_captures_fields [simp]:
  "teams (log_captures now a es g) = teams g"
  "finish_order (log_captures now a es g) = finish_order g"
  "saved (log_captures now a es g) = saved g"
  by (induction es arbitrary: g) simp_all

lemma draw_loop_mem: "draw_loop r acc ys = Some y \<Longrightarrow> y \<in> set ys"
  by (induction ys arbitrary: acc) (auto simp: Let_def split: if_splits)

lemma draw_yut_mem: "draw_yut r \<in> set YUT_OUTCOMES"
proof (cases "draw_loop r 0 YUT_OUTCOMES")
  case None
  then show ?thesis by (simp add: draw_yut_def YUT_OUTCOMES_def)
next
  case (Some y)
  then show ?thesis using draw_loop_mem [OF Some] by (simp add: draw_yut_def)
qed

lemma draw_yut_range:
  "- 1 \<le> step (draw_yut r)" "step (draw_yut r) \<le> 5" "0 \<le> extra_throw (draw_yut r)"
  using draw_yut_mem [of r] by (auto simp: YUT_OUTCOMES_def)

lemma ensure_finish_finish:
  "FINISH_POS \<le> position t \<Longrightarrow> \<not> truthy (finished_at t) \<Longrightarrow>
   ensure_finish g t now =
     (add_log_B now (FinishLogged (name t) (max 0 ((score t + 50) div 40 - throw_granted_by_score t)))
        (g\<lparr>finish_order := finish_order g @ [team_id t]\<rparr>),
      t\<lparr>position := 50, finished_at := Some now, score := score t + 50,
        throw_granted_by_score := max (throw_granted_by_score t) ((score t + 50) div 40),
        throw_chance := throw_chance t + max 0 ((score t + 50) div 40 - throw_granted_by_score t)\<rparr>)"
  by (simp add: ensure_finish_def milestone_result Let_def FINISH_POS_def)

lemma ensure_finish_not: "position t < FINISH_POS \<Longrightarrow> ensure_finish g t now = (g, t)"
  by (simp add: ensure_finish_def)

lemma is_captured_shares: "is_captured a = shares_cell (team_id a) (position a)"
  by (rule ext) (simp add: is_captured_def shares_cell_def)

lemma capture_none:
  "position a \<le> 0 \<or> FINISH_POS \<le> position a \<or> captured_count (team_id a) (position a) (teams g) = 0 \<Longrightarrow>
   capture_opponents g a now = (g, a)"
  by (auto simp: capture_opponents_def is_captured_shares captured_count_def Let_def)

lemma capture_some:
  assumes "0 < position a" "position a < FINISH_POS"
    and "k = captured_count (team_id a) (position a) (teams g)" and "0 < k"
  shows "\<exists>g'. capture_opponents g a now =
     (g', a\<lparr>score := score a + 30 * k,
            throw_granted_by_score := max (throw_granted_by_score a) ((score a + 30 * k) div 40),
            throw_chance := throw_chance a + k + max 0 ((score a + 30 * k) div 40 - throw_granted_by_score a)\<rparr>) \<and>
     teams g' = revert_captured (team_id a) (position a) (teams g) \<and>
     finish_order g' = finish_order g"
  using assms
  by (auto simp: capture_opponents_def is_captured_shares captured_count_def Let_def
      milestone_result revert_captured_def checkpoint_of_def CHECKPOINT_INTERVAL_def shares_cell_def
      cong: map_cong)

lemma extra_throw_add:
  "0 \<le> e \<Longrightarrow> (if e > 0 then t\<lparr>throw_chance := throw_chance t + e\<rparr> else t) =
     (t::team_B)\<lparr>throw_chance := throw_chance t + e\<rparr>"
  by (cases "e = 0") simp_all

lemma throw_yut_finish:
  assumes f: "find_team g tid = Some t" and nf: "\<not> truthy (finished_at t)" and tc: "0 < throw_chance t"
    and p: "FINISH_POS \<le> max 0 (position t + step (draw_yut r))"
  shows "\<exists>g'. throw_yut g tid r now =
           ((True, ThrowResult (name t) (key (draw_yut r)) (step (draw_yut r)) (extra_throw (draw_yut r))), g') \<and>
         teams g' = put_team
           (t\<lparr>throw_chance := throw_chance t - 1 + max 0 ((score t + 50) div 40 - throw_granted_by_score t)
                  + extra_throw (draw_yut r),
              position := 50, finished_at := Some now, score := score t + 50,
              throw_granted_by_score := max (throw_granted_by_score t) ((score t + 50) div 40)\<rparr>) (teams g) \<and>
         finish_order g' = finish_order g @ [team_id t]"
proof -
  define y where "y = draw_yut r"
  define t2 where "t2 = t\<lparr>throw_chance := throw_chance t - 1, position := max 0 (position t + step y)\<rparr>"
  have t2: "FINISH_POS \<le> position t2" "\<not> truthy (finished_at t2)"
    using p nf by (simp_all add: t2_def y_def)
  obtain g1 t3 where ef: "ensure_finish g t2 now = (g1, t3)"
    by (cases "ensure_finish g t2 now")
  have e3: "t3 = t2\<lparr>position := 50, finished_at := Some now, score := score t2 + 50,
        throw_granted_by_score := max (throw_granted_by_score t2) ((score t2 + 50) div 40),
        throw_chance := throw_chance t2 + max 0 ((score t2 + 50) div 40 - throw_granted_by_score t2)\<rparr>"
    and g1: "teams g1 = teams g" "finish_order g1 = finish_order g @ [team_id t2]"
    using ef ensure_finish_finish [OF t2, of g now] by auto
  have cap: "capture_opponents g1 t3 now = (g1, t3)"
    using capture_none [of t3 g1 now] by (simp add: e3 FINISH_POS_def)
  have ex: "0 \<le> extra_throw y"
    by (simp add: y_def draw_yut_range)
  have fin: "finished_at t3 = Some now"
    by (simp add: e3)
  show ?thesis
  proof (cases "truthy (Some now)")
    case True
    show ?thesis
      using f nf tc ef[unfolded e3 t2_def] ex g1 True
      by (simp add: throw_yut_def Let_def extra_throw_add t2_def flip: y_def) (cases t, simp)
  next
    case False
    show ?thesis
      using f nf tc ef[unfolded e3 t2_def] cap[unfolded e3 t2_def] ex g1 False
      by (simp add: throw_yut_def Let_def extra_throw_add t2_def flip: y_def) (cases t, simp)
  qed
qed

lemma throw_yut_move:
  assumes f: "find_team g tid = Some t" and nf: "\<not> truthy (finished_at t)" and tc: "0 < throw_chance t"
    and p: "p = max 0 (position t + step (draw_yut r))" and lt: "p < FINISH_POS"
    and k: "k = (if 0 < p then captured_count (team_id t) p (teams g) else 0)"
  shows "\<exists>g'. throw_yut g tid r now =
           ((True, ThrowResult (name t) (key (draw_yut r)) (step (draw_yut r)) (extra_throw (draw_yut r))), g') \<and>
         teams g' = put_team
           (t\<lparr>throw_chance := throw_chance t - 1 + k
                  + (if 0 < k then max 0 ((score t + 30 * k) div 40 - throw_granted_by_score t) else 0)
                  + extra_throw (draw_yut r),
              position := p, score := score t + 30 * k,
              throw_granted_by_score :=
                (if 0 < k then max (throw_granted_by_score t) ((score t + 30 * k) div 40)
                 else throw_granted_by_score t)\<rparr>)
           (if 0 < k then revert_captured (team_id t) p (teams g) else teams g) \<and>
         finish_order g' = finish_order g"
proof -
  define y where "y = draw_yut r"
  define t2 where "t2 = t\<lparr>throw_chance := throw_chance t - 1, position := max 0 (position t + step y)\<rparr>"
  have t2: "position t2 = p" "\<not> truthy (finished_at t2)" "team_id t2 = team_id t"
    using p nf by (simp_all add: t2_def y_def)
  have ef: "ensure_finish g t2 now = (g, t2)"
    using lt t2 by (simp add: ensure_finish_not)
  have ex: "0 \<le> extra_throw y"
    by (simp add: y_def draw_yut_range)
  show ?thesis
  proof (cases "0 < k")
    case True
    then have pos: "0 < position t2" "position t2 < FINISH_POS"
      and kk: "k = captured_count (team_id t2) (position t2) (teams g)"
      using k lt t2 by (auto split: if_splits)
    from capture_some [OF pos kk True, of now] obtain g2 where
      c: "capture_opponents g t2 now =
     (g2, t2\<lparr>score := score t2 + 30 * k,
            throw_granted_by_score := max (throw_granted_by_score t2) ((score t2 + 30 * k) div 40),
            throw_chance := throw_chance t2 + k + max 0 ((score t2 + 30 * k) div 40 - throw_granted_by_score t2)\<rparr>)"
      and g2: "teams g2 = revert_captured (team_id t2) (position t2) (teams g)"
        "finish_order g2 = finish_order g"
      by blast
    show ?thesis
      using f nf tc ef c ex g2 True t2
      by (simp add: throw_yut_def Let_def extra_throw_add t2_def flip: y_def) (cases t, simp)
  next
    case False
    have "captured_count (team_id t2) (position t2) (teams g) \<ge> 0"
      by (simp add: captured_count_def)
    with False k t2 have "position t2 \<le> 0 \<or> captured_count (team_id t2) (position t2) (teams g) = 0"
      by (auto split: if_splits)
    then have c: "capture_opponents g t2 now = (g, t2)"
      using capture_none [of t2 g now] by auto
    have k0: "k = 0"
      using False k by (auto simp: captured_count_def split: if_splits)
    show ?thesis
      using f nf tc ef c ex t2 k0
      by (simp add: throw_yut_def Let_def extra_throw_add t2_def flip: y_def) (cases t, simp)
  qed
qed

lemma find_revert_captured:
  "find (\<lambda>t. team_id t = tid) (revert_captured tid p ts) = find (\<lambda>t. team_id t = tid) ts"
  by (induction ts) (auto simp: revert_captured_def shares_cell_def)

lemma revert_captured_none:
  "captured_count tid p ts = 0 \<Longrightarrow> revert_captured tid p ts = ts"
  by (induction ts) (auto simp: revert_captured_def captured_count_def split: if_splits)

lemma find_team_Some_id: "find_team g tid = Some t \<Longrightarrow> team_id t = tid"
  using find_team_id [of tid "teams g" t] by (simp add: find_team_def)

lemma find_team_teams:
  "teams g' = put_team t' ts \<Longrightarrow> find (\<lambda>t. team_id t = tid) ts = Some t \<Longrightarrow> team_id t' = team_id t \<Longrightarrow>
   find_team g' tid = Some t'"
  using find_put_team [of tid ts t t'] find_team_id [of tid ts t] by (simp add: find_team_def)

lemma throw_yut_rejects_finished:
  "find_team g tid = Some t \<Longrightarrow> truthy (finished_at t) \<Longrightarrow>
   throw_yut g tid r now = ((False, AlreadyFinished), g)"
  by (simp add: throw_yut_def)

lemma throw_yut_finish_team:
  assumes f: "find_team g tid = Some t" and nf: "\<not> truthy (finished_at t)" and tc: "0 < throw_chance t"
    and y: "y = draw_yut r" and p: "p = max 0 (position t + step y)" and fin: "50 \<le> p"
  shows "\<exists>g' t'. throw_yut g tid r now = ((True, ThrowResult (name t) (key y) (step y) (extra_throw y)), g') \<and>
     find_team g' tid = Some t' \<and>
           position t' = 50 \<and> finished_at t' = Some now \<and>
           finish_order g' = finish_order g @ [tid] \<and>
           score t' = score t + 50 \<and>
           throw_granted_by_score t' = max (throw_granted_by_score t) ((score t + 50) div 40) \<and>
           throw_chance t' = throw_chance t - 1
              + max 0 ((score t + 50) div 40 - throw_granted_by_score t) + extra_throw y \<and>
           teams g' = put_team t' (teams g) \<and>
           (now \<noteq> [] \<longrightarrow> throw_yut g' tid r' now' = ((False, AlreadyFinished), g'))"
proof -
  have tid: "team_id t = tid"
    by (rule find_team_Some_id [OF f])
  have fp: "FINISH_POS \<le> max 0 (position t + step (draw_yut r))"
    using p y fin by (simp add: FINISH_POS_def)
  define t' where "t' = t\<lparr>throw_chance := throw_chance t - 1 + max 0 ((score t + 50) div 40 - throw_granted_by_score t)
                  + extra_throw (draw_yut r),
              position := 50, finished_at := Some now, score := score t + 50,
              throw_granted_by_score := max (throw_granted_by_score t) ((score t + 50) div 40)\<rparr>"
  have "\<exists>g'. throw_yut g tid r now =
           ((True, ThrowResult (name t) (key y) (step y) (extra_throw y)), g') \<and>
     teams g' = put_team t' (teams g) \<and> finish_order g' = finish_order g @ [tid]"
    using throw_yut_finish [OF f nf tc fp, of now] unfolding t'_def y tid .
  then obtain g' where
    run: "throw_yut g tid r now =
           ((True, ThrowResult (name t) (key y) (step y) (extra_throw y)), g')"
    and ts: "teams g' = put_team t' (teams g)"
    and fo: "finish_order g' = finish_order g @ [tid]"
    by (elim exE conjE)
  have id': "team_id t' = team_id t"
    by (simp add: t'_def)
  have f': "find (\<lambda>t. team_id t = tid) (teams g) = Some t"
    using f by (simp add: find_team_def)
  have found: "find_team g' tid = Some t'"
    by (rule find_team_teams [OF ts f' id'])
  have again: "now \<noteq> [] \<longrightarrow> throw_yut g' tid r' now' = ((False, AlreadyFinished), g')"
  proof
    assume "now \<noteq> []"
    then have "truthy (finished_at t')" by (simp add: t'_def truthy_def)
    then show "throw_yut g' tid r' now' = ((False, AlreadyFinished), g')"
      by (rule throw_yut_rejects_finished [OF found])
  qed
  have fields: "position t' = 50" "finished_at t' = Some now" "score t' = score t + 50"
    "throw_granted_by_score t' = max (throw_granted_by_score t) ((score t + 50) div 40)"
    "throw_chance t' = throw_chance t - 1
              + max 0 ((score t + 50) div 40 - throw_granted_by_score t) + extra_throw y"
    by (simp_all add: t'_def y)
  show ?thesis
    by (intro exI [of _ g'] exI [of _ t'] conjI run found ts fo again fields)
qed

lemma throw_yut_move_team:
  assumes f: "find_team g tid = Some t" and nf: "\<not> truthy (finished_at t)" and tc: "0 < throw_chance t"
    and y: "y = draw_yut r" and p: "p = max 0 (position t + step y)" and lt: "p < 50"
    and k: "k = (if 0 < p then captured_count tid p (teams g) else 0)"
  shows "\<exists>g' t'. throw_yut g tid r now = ((True, ThrowResult (name t) (key y) (step y) (extra_throw y)), g') \<and>
     find_team g' tid = Some t' \<and>
     position t' = p \<and> finished_at t' = finished_at t \<and> finish_order g' = finish_order g \<and>
     teams g' = put_team t' (if 0 < p then revert_captured tid p (teams g) else teams g) \<and>
     score t' = score t + 30 * k \<and>
     throw_chance t' = throw_chance t - 1 + k
        + (if 0 < k then max 0 ((score t + 30 * k) div 40 - throw_granted_by_score t) else 0)
        + extra_throw y \<and>
     throw_granted_by_score t' =
        (if 0 < k then max (throw_granted_by_score t) ((score t + 30 * k) div 40)
         else throw_granted_by_score t)"
proof -
  have tid: "team_id t = tid"
    by (rule find_team_Some_id [OF f])
  have lt': "p < FINISH_POS"
    using lt by (simp add: FINISH_POS_def)
  have k': "k = (if 0 < p then captured_count (team_id t) p (teams g) else 0)"
    using k tid by simp
  define t' where "t' = t\<lparr>throw_chance := throw_chance t - 1 + k
                  + (if 0 < k then max 0 ((score t + 30 * k) div 40 - throw_granted_by_score t) else 0)
                  + extra_throw (draw_yut r),
              position := p, score := score t + 30 * k,
              throw_granted_by_score :=
                (if 0 < k then max (throw_granted_by_score t) ((score t + 30 * k) div 40)
                 else throw_granted_by_score t)\<rparr>"
  have "\<exists>g'. throw_yut g tid r now =
           ((True, ThrowResult (name t) (key y) (step y) (extra_throw y)), g') \<and>
     teams g' = put_team t' (if 0 < k then revert_captured tid p (teams g) else teams g) \<and>
     finish_order g' = finish_order g"
    using throw_yut_move [OF f nf tc p [unfolded y] lt' k', of now] unfolding t'_def y tid .
  then obtain g' where
    run: "throw_yut g tid r now =
           ((True, ThrowResult (name t) (key y) (step y) (extra_throw y)), g')"
    and ts0: "teams g' = put_team t' (if 0 < k then revert_captured tid p (teams g) else teams g)"
    and fo: "finish_order g' = finish_order g"
    by (elim exE conjE)
  have same: "(if 0 < k then revert_captured tid p (teams g) else teams g) =
      (if 0 < p then revert_captured tid p (teams g) else teams g)"
    using k by (auto simp: revert_captured_none captured_count_def)
  have ts: "teams g' = put_team t' (if 0 < p then revert_captured tid p (teams g) else teams g)"
    using ts0 same by simp
  have id': "team_id t' = team_id t"
    by (simp add: t'_def)
  have f': "find (\<lambda>t. team_id t = tid)
      (if 0 < p then revert_captured tid p (teams g) else teams g) = Some t"
    using f by (simp add: find_team_def find_revert_captured)
  have found: "find_team g' tid = Some t'"
    by (rule find_team_teams [OF ts f' id'])
  have fields: "position t' = p" "finished_at t' = finished_at t" "score t' = score t + 30 * k"
    "throw_chance t' = throw_chance t - 1 + k
        + (if 0 < k then max 0 ((score t + 30 * k) div 40 - throw_granted_by_score t) else 0)
        + extra_throw y"
    "throw_granted_by_score t' =
        (if 0 < k then max (throw_granted_by_score t) ((score t + 30 * k) div 40)
         else throw_granted_by_score t)"
    by (simp_all add: t'_def y)
  show ?thesis
    by (intro exI [of _ g'] exI [of _ t'] conjI run found ts fo fields)
qed

text \<open>
  Claim C4. A throw by a found team that is not finished and has a chance succeeds. With
  \<open>p = max 0 (position + step)\<close> for the drawn step, the team's position becomes \<open>p\<close>,
  never negative, or exactly 50 when \<open>p\<close> is at least 50. In that case \<open>finished_at\<close> is
  set to the time of the throw, the id is appended to \<open>finish_order\<close>, the score grows by
  50 and the milestone is converted on the new score, no other team changes (the capture
  is skipped), and every later throw of the team is rejected, so it finishes once.
  Otherwise \<open>finished_at\<close> and \<open>finish_order\<close> stay as they are.
\<close>

theorem throw_yut_position_and_finish:
  assumes f: "find_team g tid = Some t" and nf: "\<not> truthy (finished_at t)" and tc: "0 < throw_chance t"
    and y: "y = draw_yut r" and p: "p = max 0 (position t + step y)"
  shows "\<exists>g' t'. throw_yut g tid r now = ((True, ThrowResult (name t) (key y) (step y) (extra_throw y)), g') \<and>
     find_team g' tid = Some t' \<and>
     position t' = (if 50 \<le> p then 50 else p) \<and> 0 \<le> position t' \<and>
     (if 50 \<le> p
      then finished_at t' = Some now \<and>
           finish_order g' = finish_order g @ [tid] \<and>
           score t' = score t + 50 \<and>
           throw_granted_by_score t' = max (throw_granted_by_score t) ((score t + 50) div 40) \<and>
           throw_chance t' = throw_chance t - 1
              + max 0 ((score t + 50) div 40 - throw_granted_by_score t) + extra_throw y \<and>
           teams g' = put_team t' (teams g) \<and>
           (now \<noteq> [] \<longrightarrow> throw_yut g' tid r' now' = ((False, AlreadyFinished), g'))
      else finished_at t' = finished_at t \<and> finish_order g' = finish_order g)"
proof (cases "50 \<le> p")
  case True
  from throw_yut_finish_team [OF f nf tc y p True, of now r' now'] show ?thesis
    using True by auto
next
  case False
  then have lt: "p < 50" by simp
  have p0: "0 \<le> p" using p by simp
  from throw_yut_move_team [OF f nf tc y p lt refl, of now] show ?thesis
    using False p0 by auto
qed

theorem throw_yut_position_and_finish_witness:
  "find_team (new_game_B\<lparr>teams := [near_finish]\<rparr>) (lit ''team_1_1000'') = Some near_finish \<and>
   \<not> truthy (finished_at near_finish) \<and> 0 < throw_chance near_finish \<and>
   step (draw_yut 95) = 5 \<and> extra_throw (draw_yut 95) = 1 \<and>
   (\<exists>g' t'. fst (throw_yut (new_game_B\<lparr>teams := [near_finish]\<rparr>) (lit ''team_1_1000'') 95 (lit ''2026-01-01T00:00:00''))
              = (True, ThrowResult (lit ''A'') (lit ''mo'') 5 1) \<and>
            snd (throw_yut (new_game_B\<lparr>teams := [near_finish]\<rparr>) (lit ''team_1_1000'') 95 (lit ''2026-01-01T00:00:00''))
              = g' \<and>
            find_team g' (lit ''team_1_1000'') = Some t' \<and> position t' = 50 \<and>
            finished_at t' = Some (lit ''2026-01-01T00:00:00'') \<and>
            finish_order g' = [lit ''team_1_1000''] \<and> score t' = 90 \<and>
            throw_granted_by_score t' = 2 \<and> throw_chance t' = 2 \<and>
            throw_yut g' (lit ''team_1_1000'') 10 (lit ''2026-01-01T00:00:01'') = ((False, AlreadyFinished), g'))"
proof -
  let ?g = "new_game_B\<lparr>teams := [near_finish]\<rparr>"
  have h1: "find_team ?g (lit ''team_1_1000'') = Some near_finish"
    by (simp add: find_team_def near_finish_def new_team_B_def)
  have h2: "\<not> truthy (finished_at near_finish)"
    by (simp add: truthy_def near_finish_def new_team_B_def)
  have h3: "0 < throw_chance near_finish"
    by (simp add: near_finish_def new_team_B_def)
  have d: "draw_yut 95 = \<lparr>key = lit ''mo'', step = 5, weight = 8, extra_throw = 1\<rparr>"
    by (simp add: draw_yut_def YUT_OUTCOMES_def)
  have v: "max 0 (position near_finish + 5) = 53" "score near_finish = 40"
    "throw_granted_by_score near_finish = 1" "throw_chance near_finish = 1"
    "name near_finish = lit ''A''" "new_game_B = \<lparr>teams = [], logs = [], saved = None, finish_order = []\<rparr>"
    by (simp_all add: near_finish_def new_team_B_def new_game_B_def)
  have ne: "lit ''2026-01-01T00:00:00'' \<noteq> []"
    by (simp add: lit_def)
  have v': "max 0 (position near_finish + 5) = 53"
    by (simp add: v)
  from throw_yut_position_and_finish [OF h1 h2 h3 refl refl,
      of 95 "lit ''2026-01-01T00:00:00''" 10 "lit ''2026-01-01T00:00:01''"]
  obtain g' t' where
    "throw_yut ?g (lit ''team_1_1000'') 95 (lit ''2026-01-01T00:00:00'') =
       ((True, ThrowResult (lit ''A'') (lit ''mo'') 5 1), g')"
    "find_team g' (lit ''team_1_1000'') = Some t'" "position t' = 50"
    "finished_at t' = Some (lit ''2026-01-01T00:00:00'')"
    "finish_order g' = [lit ''team_1_1000'']" "score t' = 90"
    "throw_granted_by_score t' = 2" "throw_chance t' = 2"
    "throw_yut g' (lit ''team_1_1000'') 10 (lit ''2026-01-01T00:00:01'') = ((False, AlreadyFinished), g')"
    using ne by (simp add: d v) blast
  then show ?thesis
    using h1 h2 h3 d by (intro conjI exI [of _ g'] exI [of _ t']) simp_all
qed

text \<open>
  Claim C5. On a successful throw that lands on \<open>p\<close> with \<open>0 < p < 50\<close>, every team
  with another id that is not finished and stands on \<open>p\<close> goes back to
  \<open>(p div 10) * 10\<close>; with \<open>k\<close> such teams the mover gains \<open>30 * k\<close> score and
  \<open>k\<close> chances and, when \<open>k\<close> is positive, the milestone is converted on the new
  score. When the throw lands on 0 or finishes, no other team changes and the mover gets
  no capture points; a finished team is never sent back.
\<close>

theorem throw_yut_captures:
  assumes f: "find_team g tid = Some t" and nf: "\<not> truthy (finished_at t)" and tc: "0 < throw_chance t"
    and y: "y = draw_yut r" and p: "p = max 0 (position t + step y)"
    and k: "k = captured_count tid p (teams g)"
  shows "\<exists>g' t'. throw_yut g tid r now = ((True, ThrowResult (name t) (key y) (step y) (extra_throw y)), g') \<and>
     find_team g' tid = Some t' \<and>
     (if 0 < p \<and> p < 50
      then position t' = p \<and>
           teams g' = put_team t' (revert_captured tid p (teams g)) \<and>
           score t' = score t + 30 * k \<and>
           throw_chance t' = throw_chance t - 1 + k
             + (if 0 < k then max 0 ((score t + 30 * k) div 40 - throw_granted_by_score t) else 0)
             + extra_throw y \<and>
           throw_granted_by_score t' =
             (if 0 < k then max (throw_granted_by_score t) ((score t + 30 * k) div 40)
              else throw_granted_by_score t)
      else teams g' = put_team t' (teams g) \<and>
           score t' = score t + (if 50 \<le> p then 50 else 0)) \<and>
     (\<forall>u. truthy (finished_at u) \<longrightarrow> revert_captured tid p [u] = [u])"
proof -
  have fin: "\<forall>u. truthy (finished_at u) \<longrightarrow> revert_captured tid p [u] = [u]"
    by (simp add: revert_captured_def shares_cell_def)
  show ?thesis
  proof (cases "50 \<le> p")
    case True
    from throw_yut_finish_team [OF f nf tc y p True, of now r now] show ?thesis
      using True fin by auto
  next
    case False
    then have lt: "p < 50" by simp
    have p0: "0 \<le> p" using p by simp
    show ?thesis
    proof (cases "0 < p")
      case True
      then have k': "k = (if 0 < p then captured_count tid p (teams g) else 0)"
        using k by simp
      from throw_yut_move_team [OF f nf tc y p lt k', of now] show ?thesis
        using True lt fin by auto
    next
      case False
      from throw_yut_move_team [OF f nf tc y p lt refl, of now] show ?thesis
        using False fin by auto
    qed
  qed
qed

theorem throw_yut_captures_witness:
  "find_team (new_game_B\<lparr>teams := [chaser, runner]\<rparr>) (lit ''team_1_1000'') = Some chaser \<and>
   \<not> truthy (finished_at chaser) \<and> 0 < throw_chance chaser \<and>
   max 0 (position chaser + step (draw_yut 50)) = 13 \<and>
   captured_count (lit ''team_1_1000'') 13 [chaser, runner] = 1 \<and>
   (\<exists>g' t'. snd (throw_yut (new_game_B\<lparr>teams := [chaser, runner]\<rparr>) (lit ''team_1_1000'') 50
                   (lit ''2026-01-01T00:00:00'')) = g' \<and>
            teams g' = [t', runner\<lparr>position := 10\<rparr>] \<and> position t' = 13 \<and>
            score t' = 70 \<and> throw_chance t' = 1 \<and> throw_granted_by_score t' = 1)"
proof -
  let ?g = "new_game_B\<lparr>teams := [chaser, runner]\<rparr>"
  have h1: "find_team ?g (lit ''team_1_1000'') = Some chaser"
    by (simp add: find_team_def chaser_def new_team_B_def)
  have h2: "\<not> truthy (finished_at chaser)"
    by (simp add: truthy_def chaser_def new_team_B_def)
  have h3: "0 < throw_chance chaser"
    by (simp add: chaser_def new_team_B_def)
  have d: "draw_yut 50 = \<lparr>key = lit ''gae'', step = 2, weight = 26, extra_throw = 0\<rparr>"
    by (simp add: draw_yut_def YUT_OUTCOMES_def)
  have ids: "team_id chaser = lit ''team_1_1000''" "team_id runner = lit ''team_2_2000''"
    "lit ''team_2_2000'' \<noteq> lit ''team_1_1000''"
    by (simp_all add: chaser_def runner_def new_team_B_def lit_def)
  have v: "max 0 (position chaser + 2) = 13" "score chaser = 40"
    "throw_granted_by_score chaser = 1" "throw_chance chaser = 1"
    "teams ?g = [chaser, runner]"
    by (simp_all add: chaser_def new_team_B_def)
  have sh: "\<not> shares_cell (lit ''team_1_1000'') 13 chaser" "shares_cell (lit ''team_1_1000'') 13 runner"
    by (simp_all add: shares_cell_def ids truthy_def) (simp_all add: chaser_def runner_def new_team_B_def)
  have c: "captured_count (lit ''team_1_1000'') 13 [chaser, runner] = 1"
    "revert_captured (lit ''team_1_1000'') 13 [chaser, runner] = [chaser, runner\<lparr>position := 10\<rparr>]"
    by (simp_all add: captured_count_def revert_captured_def sh)
  from throw_yut_captures [OF h1 h2 h3 refl refl refl, of 50 "lit ''2026-01-01T00:00:00''"]
  obtain g' t' where r:
    "throw_yut ?g (lit ''team_1_1000'') 50 (lit ''2026-01-01T00:00:00'') =
       ((True, ThrowResult (name chaser) (lit ''gae'') 2 0), g')"
    "find_team g' (lit ''team_1_1000'') = Some t'" "position t' = 13"
    "teams g' = put_team t' [chaser, runner\<lparr>position := 10\<rparr>]"
    "score t' = 70" "throw_chance t' = 1" "throw_granted_by_score t' = 1"
    by (simp add: d v c) blast
  have "team_id t' = lit ''team_1_1000''"
    by (rule find_team_Some_id [OF r(2)])
  then have "teams g' = [t', runner\<lparr>position := 10\<rparr>]"
    using r(4) by (simp add: ids)
  then show ?thesis
    using h1 h2 h3 r by (intro conjI exI [of _ g'] exI [of _ t']) (simp_all add: d v c)
qed

section \<open>Validation failures\<close>

lemma add_team_A_fails:
  "failed (add_team_A g nm nid now) = invalid_team_name g nm"
  "failed (add_team_A g nm nid now) \<longrightarrow>
     snd (add_team_A g nm nid now) = g \<and>
     snd (fst (add_team_A g nm nid now)) \<in> {EnterTeamName, DuplicateTeamName}"
  by (auto simp: failed_def add_team_A_def invalid_team_name_def Let_def split: if_splits)

lemma add_team_B_fails:
  "failed (add_team_B g nm nid now) = invalid_team_name g nm"
  "failed (add_team_B g nm nid now) \<longrightarrow>
     snd (add_team_B g nm nid now) = g \<and>
     snd (fst (add_team_B g nm nid now)) \<in> {EnterTeamName, DuplicateTeamName}"
  by (auto simp: failed_def add_team_B_def invalid_team_name_def Let_def split: if_splits)

lemma map_of_None_iff: "k \<in> fst ` set d \<longleftrightarrow> map_of d k \<noteq> None"
  by (simp add: map_of_eq_None_iff)

lemma record_activity_A_fails:
  "(\<exists>m g'. record_activity_A g tid d c n title now = Inr ((False, m), g')) = invalid_activity g tid d c n"
  "\<forall>m g'. record_activity_A g tid d c n title now = Inr ((False, m), g') \<longrightarrow>
     g' = g \<and> m \<in> {InvalidTeam, InvalidDifficulty, InvalidCategory, InvalidParticipantCount}"
  by (auto simp: record_activity_A_def invalid_activity_def Let_def map_of_None_iff
      split: option.splits sum.splits if_splits prod.splits)

lemma record_activity_B_fails:
  "(\<exists>m g'. record_activity_B g tid d c n title now = Inr ((False, m), g')) = invalid_activity g tid d c n"
  "\<forall>m g'. record_activity_B g tid d c n title now = Inr ((False, m), g') \<longrightarrow>
     g' = g \<and> m \<in> {InvalidTeam, InvalidDifficulty, InvalidCategory, InvalidParticipantCount}"
  by (auto simp: record_activity_B_def invalid_activity_def Let_def map_of_None_iff
      split: option.splits sum.splits if_splits prod.splits)

lemma throw_yut_fails:
  "failed (throw_yut g tid r now) = invalid_throw g tid"
  "failed (throw_yut g tid r now) \<longrightarrow>
     snd (throw_yut g tid r now) = g \<and>
     snd (fst (throw_yut g tid r now)) \<in> {InvalidTeam, AlreadyFinished, NoThrowChance}"
  by (auto simp: failed_def throw_yut_def invalid_throw_def Let_def split_beta split: option.splits)

text \<open>
  Claim C6. \<open>add_team\<close>, \<open>record_activity\<close> and \<open>throw_yut\<close> return a failure exactly on
  the validation failures listed above; the failure carries one of the reasons of that
  operation, and the game it leaves is the game it was given: the same teams, logs,
  finish order and saved payload.
\<close>

theorem validation_failures:
  "(failed (add_team_A gA nm nid now) = invalid_team_name gA nm) \<and>
   (failed (add_team_A gA nm nid now) \<longrightarrow>
      snd (add_team_A gA nm nid now) = gA \<and>
      snd (fst (add_team_A gA nm nid now)) \<in> {EnterTeamName, DuplicateTeamName}) \<and>
   (failed (add_team_B g nm nid now) = invalid_team_name g nm) \<and>
   (failed (add_team_B g nm nid now) \<longrightarrow>
      snd (add_team_B g nm nid now) = g \<and>
      snd (fst (add_team_B g nm nid now)) \<in> {EnterTeamName, DuplicateTeamName}) \<and>
   ((\<exists>m g'. record_activity_A gA tid d c n title now = Inr ((False, m), g')) = invalid_activity gA tid d c n) \<and>
   (\<forall>m g'. record_activity_A gA tid d c n title now = Inr ((False, m), g') \<longrightarrow>
      g' = gA \<and> m \<in> {InvalidTeam, InvalidDifficulty, InvalidCategory, InvalidParticipantCount}) \<and>
   ((\<exists>m g'. record_activity_B g tid d c n title now = Inr ((False, m), g')) = invalid_activity g tid d c n) \<and>
   (\<forall>m g'. record_activity_B g tid d c n title now = Inr ((False, m), g') \<longrightarrow>
      g' = g \<and> m \<in> {InvalidTeam, InvalidDifficulty, InvalidCategory, InvalidParticipantCount}) \<and>
   (failed (throw_yut g tid r now) = invalid_throw g tid) \<and>
   (failed (throw_yut g tid r now) \<longrightarrow>
      snd (throw_yut g tid r now) = g \<and>
      snd (fst (throw_yut g tid r now)) \<in> {InvalidTeam, AlreadyFinished, NoThrowChance})"
  by (intro conjI add_team_A_fails add_team_B_fails record_activity_A_fails
      record_activity_B_fails throw_yut_fails)

theorem validation_failures_witness:
  "invalid_team_name (new_game_B\<lparr>teams := [chaser, runner]\<rparr>) (lit '' A '') \<and>
   snd (add_team_B (new_game_B\<lparr>teams := [chaser, runner]\<rparr>) (lit '' A '') (lit ''team_3_3000'')
          (lit ''2026-01-01T00:00:00'')) = new_game_B\<lparr>teams := [chaser, runner]\<rparr> \<and>
   invalid_activity (new_game_B\<lparr>teams := [chaser, runner]\<rparr>) (lit ''team_1_1000'')
      (lit ''extreme'') (lit ''talk'') 2 \<and>
   (\<exists>m. record_activity_B (new_game_B\<lparr>teams := [chaser, runner]\<rparr>) (lit ''team_1_1000'')
      (lit ''extreme'') (lit ''talk'') 2 [] (lit ''2026-01-01T00:00:00'') =
         Inr ((False, m), new_game_B\<lparr>teams := [chaser, runner]\<rparr>)) \<and>
   invalid_throw (new_game_B\<lparr>teams := [chaser, runner]\<rparr>) (lit ''team_2_2000'') \<and>
   snd (throw_yut (new_game_B\<lparr>teams := [chaser, runner]\<rparr>) (lit ''team_2_2000'') 50
          (lit ''2026-01-01T00:00:00'')) = new_game_B\<lparr>teams := [chaser, runner]\<rparr>"
proof -
  let ?g = "new_game_B\<lparr>teams := [chaser, runner]\<rparr>"
  have sp: "strip (lit '' A '') = lit ''A''"
    by (simp add: strip_def lit_def isspace_def)
  have h1: "invalid_team_name ?g (lit '' A '')"
    by (simp add: invalid_team_name_def sp chaser_def new_team_B_def)
  have h2: "invalid_activity ?g (lit ''team_1_1000'') (lit ''extreme'') (lit ''talk'') 2"
    by (simp add: invalid_activity_def DIFFICULTY_POINTS_def lit_def)
  have h3: "invalid_throw ?g (lit ''team_2_2000'')"
    by (simp add: invalid_throw_def find_team_def chaser_def runner_def new_team_B_def lit_def)
  note vf = validation_failures [where g = ?g and nm = "lit '' A ''" and nid = "lit ''team_3_3000''"
      and now = "lit ''2026-01-01T00:00:00''" and tid = "lit ''team_1_1000''"
      and d = "lit ''extreme''" and c = "lit ''talk''" and n = 2 and title = "[]"
      and gA = new_game_A and r = 50]
  note vg = validation_failures [where g = ?g and tid = "lit ''team_2_2000''" and r = 50
      and now = "lit ''2026-01-01T00:00:00''" and gA = new_game_A and nm = "[]" and nid = "[]"
      and d = "[]" and c = "[]" and n = 0 and title = "[]"]
  note c2 = conjunct2
  have "failed (add_team_B ?g (lit '' A '') (lit ''team_3_3000'') (lit ''2026-01-01T00:00:00''))"
    using vf [THEN c2, THEN c2, THEN conjunct1] h1 by simp
  then have a: "snd (add_team_B ?g (lit '' A '') (lit ''team_3_3000'') (lit ''2026-01-01T00:00:00'')) = ?g"
    using vf [THEN c2, THEN c2, THEN c2, THEN conjunct1] by simp
  have "\<exists>m g'. record_activity_B ?g (lit ''team_1_1000'')
      (lit ''extreme'') (lit ''talk'') 2 [] (lit ''2026-01-01T00:00:00'') = Inr ((False, m), g')"
    using vf [THEN c2, THEN c2, THEN c2, THEN c2, THEN c2, THEN c2, THEN conjunct1] h2 by simp
  then have b: "\<exists>m. record_activity_B ?g (lit ''team_1_1000'')
      (lit ''extreme'') (lit ''talk'') 2 [] (lit ''2026-01-01T00:00:00'') = Inr ((False, m), ?g)"
    using vf [THEN c2, THEN c2, THEN c2, THEN c2, THEN c2, THEN c2, THEN c2, THEN conjunct1] by blast
  have "failed (throw_yut ?g (lit ''team_2_2000'') 50 (lit ''2026-01-01T00:00:00''))"
    using vg [THEN c2, THEN c2, THEN c2, THEN c2, THEN c2, THEN c2, THEN c2, THEN c2, THEN conjunct1] h3
    by simp
  then have c: "snd (throw_yut ?g (lit ''team_2_2000'') 50 (lit ''2026-01-01T00:00:00'')) = ?g"
    using vg [THEN c2, THEN c2, THEN c2, THEN c2, THEN c2, THEN c2, THEN c2, THEN c2, THEN c2] by simp
  show ?thesis
    using h1 h2 h3 a b c by (intro conjI)
qed

section \<open>Invariants of the reachable states\<close>

lemma find_put_team_eq:
  "find (\<lambda>u. team_id u = x) (put_team t' ts) =
     (if x = team_id t' \<and> find (\<lambda>u. team_id u = x) ts \<noteq> None then Some t'
      else find (\<lambda>u. team_id u = x) ts)"
  by (induction ts) auto

lemma find_snoc:
  "find P (ts @ [n]) = (case find P ts of Some t \<Rightarrow> Some t | None \<Rightarrow> if P n then Some n else None)"
  by (induction ts) auto

lemma find_revert_eq:
  "find (\<lambda>u. team_id u = x) (revert_captured tid p ts) =
     map_option (\<lambda>u. if shares_cell tid p u then u\<lparr>position := (p div 10) * 10\<rparr> else u)
       (find (\<lambda>u. team_id u = x) ts)"
  by (induction ts) (auto simp: revert_captured_def)

lemma set_put_team: "set (put_team t' ts) \<subseteq> insert t' (set ts)"
  by (induction ts) auto

lemma list_all_put_team: "list_all P ts \<Longrightarrow> P t' \<Longrightarrow> list_all P (put_team t' ts)"
  using set_put_team [of t' ts] by (auto simp: list_all_iff)

lemma line_bonus_frame:
  "line_bonus cs b t = Inr (b', t') \<Longrightarrow>
   b \<le> b' \<and> (\<exists>L. t' = t\<lparr>line_bonus_taken := L\<rparr> \<and>
                 (\<forall>c. map_of (line_bonus_taken t) c \<noteq> None \<longrightarrow> map_of L c \<noteq> None))"
proof (induction cs arbitrary: b t)
  case Nil
  then show ?case by (auto intro: exI [of _ "line_bonus_taken t"])
next
  case (Cons c cs)
  from Cons.prems obtain n k where n: "map_of (category_count t) c = Some n"
    and k: "map_of (line_bonus_taken t) c = Some k"
    by (auto simp: Let_def split: option.splits)
  show ?case
  proof (cases "n div 3 > k")
    case True
    let ?t1 = "t\<lparr>line_bonus_taken := AList.update c (n div 3) (line_bonus_taken t)\<rparr>"
    have "line_bonus cs (b + (n div 3 - k) * 25) ?t1 = Inr (b', t')"
      using Cons.prems n k True by (simp add: LINE_THRESHOLD_def LINE_BONUS_POINTS_def Let_def)
    from Cons.IH [OF this] obtain L where
      "b + (n div 3 - k) * 25 \<le> b'" "t' = ?t1\<lparr>line_bonus_taken := L\<rparr>"
      "\<forall>c'. map_of (line_bonus_taken ?t1) c' \<noteq> None \<longrightarrow> map_of L c' \<noteq> None"
      by blast
    then show ?thesis using True
      by (intro conjI exI [of _ L]) (auto simp: update_conv')
  next
    case False
    have "line_bonus cs b t = Inr (b', t')"
      using Cons.prems n k False by (simp add: LINE_THRESHOLD_def Let_def)
    from Cons.IH [OF this] show ?thesis .
  qed
qed

lemma compute_bonus_frame:
  assumes "compute_bonus t = Inr (b, t')"
  shows "0 \<le> b \<and> (\<exists>s L. t' = t\<lparr>set_bonus_taken := s, line_bonus_taken := L\<rparr> \<and>
                 (\<forall>c. map_of (line_bonus_taken t) c \<noteq> None \<longrightarrow> map_of L c \<noteq> None))"
proof (cases "all_positive (category_count t) CATEGORIES")
  case (Inl e)
  then show ?thesis using assms by (simp add: compute_bonus_def)
next
  case (Inr done_all)
  show ?thesis
  proof (cases "done_all \<and> set_bonus_taken t = 0")
    case True
    then have "line_bonus CATEGORIES SET_BONUS_POINTS (t\<lparr>set_bonus_taken := 1\<rparr>) = Inr (b, t')"
      using assms Inr by (simp add: compute_bonus_def)
    from line_bonus_frame [OF this] show ?thesis
      by (auto simp: SET_BONUS_POINTS_def)
  next
    case False
    then have "line_bonus CATEGORIES 0 t = Inr (b, t')"
      using assms Inr by (auto simp: compute_bonus_def)
    from line_bonus_frame [OF this] obtain L where
      "0 \<le> b" "t' = t\<lparr>line_bonus_taken := L\<rparr>"
      "\<forall>c. map_of (line_bonus_taken t) c \<noteq> None \<longrightarrow> map_of L c \<noteq> None"
      by blast
    then show ?thesis
      by (intro conjI exI [of _ "set_bonus_taken t"] exI [of _ L]) auto
  qed
qed

lemma earned_points_nonneg:
  assumes "map_of DIFFICULTY_POINTS d = Some dp"
  shows "0 \<le> earned_points dp n"
proof -
  have "(d, dp) \<in> set DIFFICULTY_POINTS"
    using assms by (rule map_of_SomeD)
  then have "0 \<le> dp"
    by (auto simp: DIFFICULTY_POINTS_def)
  then show ?thesis
    by (simp add: earned_points_eq earned_spec_def)
qed

lemma has_categories_update: "has_categories d \<Longrightarrow> has_categories (AList.update c v d)"
  by (simp add: has_categories_def list_all_iff update_conv')

lemma has_categories_mono:
  "has_categories d \<Longrightarrow> \<forall>c. map_of d c \<noteq> None \<longrightarrow> map_of L c \<noteq> None \<Longrightarrow> has_categories L"
  by (simp add: has_categories_def list_all_iff)

lemma record_activity_B_frame:
  assumes run: "record_activity_B g tid d c n title now = Inr (res, g')"
  shows "g' = g \<or>
    (\<exists>t t'. find_team g tid = Some t \<and> teams g' = put_team t' (teams g) \<and>
       finish_order g' = finish_order g \<and> team_id t' = team_id t \<and>
       position t' = position t \<and> finished_at t' = finished_at t \<and> score t \<le> score t' \<and>
       throw_granted_by_score t' = max (throw_granted_by_score t) (score t' div 40) \<and>
       throw_chance t' = throw_chance t + max 0 (score t' div 40 - throw_granted_by_score t) \<and>
       (team_ok t \<longrightarrow> team_ok t'))"
proof (cases "invalid_activity g tid d c n")
  case True
  then have "\<exists>m g''. record_activity_B g tid d c n title now = Inr ((False, m), g'')"
    by (simp add: record_activity_B_fails(1))
  then show ?thesis
    using run record_activity_B_fails(2) [of g tid d c n title now] by auto
next
  case False
  then obtain t dp where f: "find_team g tid = Some t"
    and dp: "map_of DIFFICULTY_POINTS d = Some dp" and c: "c \<in> set CATEGORIES" and n: "1 \<le> n"
    by (auto simp: invalid_activity_def map_of_None_iff)
  from run f dp c n obtain k where k: "map_of (category_count t) c = Some k"
    by (cases "map_of (category_count t) c") (auto simp: record_activity_B_def Let_def)
  define t1 where "t1 = t\<lparr>score := score t + earned_points dp n, mission_count := mission_count t + 1,
        category_count := AList.update c (k + 1) (category_count t)\<rparr>"
  from run f dp c n k obtain b t2 where cb: "compute_bonus t1 = Inr (b, t2)"
    by (cases "compute_bonus t1") (auto simp: record_activity_B_def Let_def t1_def)
  define t3 where "t3 = (if b > 0 then t2\<lparr>score := score t2 + b\<rparr> else t2)"
  let ?t4 = "snd (apply_score_throw_milestone t3)"
  have r: "record_activity_B g tid d c n title now =
    Inr ((True, ActivityApplied),
      save_B (add_log_B now
        (ActivityLogged_B (name ?t4) (strip title)
           (earned_points dp n) d c n b (fst (apply_score_throw_milestone t3)))
        (g\<lparr>teams := put_team ?t4 (teams g)\<rparr>)))"
    by (rule record_activity_B_run [OF f dp c n k cb [unfolded t1_def] t3_def])
  from compute_bonus_frame [OF cb] obtain s L where b0: "0 \<le> b"
    and t2: "t2 = t1\<lparr>set_bonus_taken := s, line_bonus_taken := L\<rparr>"
    and L: "\<forall>c. map_of (line_bonus_taken t1) c \<noteq> None \<longrightarrow> map_of L c \<noteq> None"
    by blast
  have e0: "0 \<le> earned_points dp n"
    by (rule earned_points_nonneg [OF dp])
  have g': "teams g' = put_team ?t4 (teams g)" "finish_order g' = finish_order g"
    using run r by auto
  have fields: "team_id ?t4 = team_id t" "position ?t4 = position t" "finished_at ?t4 = finished_at t"
    by (simp_all add: milestone_keeps t3_def t2 t1_def)
  have sc: "score ?t4 = score t + earned_points dp n + b"
    using b0 by (simp add: milestone_keeps t3_def t2 t1_def)
  have tg3: "throw_granted_by_score t3 = throw_granted_by_score t" "score t3 = score ?t4"
    "throw_chance t3 = throw_chance t"
    by (simp_all add: milestone_keeps t3_def t2 t1_def)
  have tcf: "throw_chance ?t4 = throw_chance t + max 0 (score ?t4 div 40 - throw_granted_by_score t)"
    using tg3 by (simp add: milestone_result)
  have tg: "throw_granted_by_score ?t4 = max (throw_granted_by_score t) (score ?t4 div 40)"
    using tg3 by (simp add: milestone_result)
  have ok: "team_ok t \<longrightarrow> team_ok ?t4"
  proof
    assume "team_ok t"
    then have hc: "has_categories (category_count t)" and hl: "has_categories (line_bonus_taken t)"
      by (simp_all add: team_ok_def)
    have "has_categories (category_count ?t4)"
      using has_categories_update [OF hc, of c "k + 1"] by (simp add: milestone_keeps t3_def t2 t1_def)
    moreover have "has_categories (line_bonus_taken ?t4)"
      using has_categories_mono [OF hl, of L] L by (simp add: milestone_keeps t3_def t2 t1_def)
    ultimately show "team_ok ?t4"
      by (simp add: team_ok_def)
  qed
  have "score t \<le> score ?t4"
    using sc e0 b0 by simp
  then show ?thesis
    using f g' fields tg tcf ok by blast
qed

lemma team_inv_new: "team_inv (new_team_B i n)"
  by (simp add: team_inv_def new_team_B_def team_ok_def has_categories_def CATEGORIES_def lit_def)

lemma game_inv_fresh: "game_inv new_game_B"
  by (simp add: game_inv_def new_game_B_def order_inv_def)

lemma game_inv_reset: "game_inv (reset_B g)"
  by (simp add: game_inv_def reset_B_def order_inv_def)

lemma order_inv_snoc:
  "order_inv ts fo \<Longrightarrow> position n \<noteq> 50 \<Longrightarrow> order_inv (ts @ [n]) fo"
  by (auto simp: order_inv_def find_snoc split: option.splits)

lemma game_inv_add_team:
  assumes "game_inv g"
  shows "game_inv (snd (add_team_B g nm nid now))"
proof (cases "failed (add_team_B g nm nid now)")
  case True
  then show ?thesis using assms add_team_B_fails(2) [of g nm nid now] by simp
next
  case False
  then have "\<not> invalid_team_name g nm"
    by (simp add: add_team_B_fails(1))
  then have ts: "teams (snd (add_team_B g nm nid now)) = teams g @ [new_team_B nid (strip nm)]"
    and fo: "finish_order (snd (add_team_B g nm nid now)) = finish_order g"
    by (simp_all add: add_team_B_def invalid_team_name_def Let_def)
  have "position (new_team_B nid (strip nm)) \<noteq> 50"
    by (simp add: new_team_B_def)
  then show ?thesis
    using assms by (simp add: game_inv_def ts fo team_inv_new order_inv_snoc)
qed

lemma order_inv_put_same:
  assumes "order_inv ts fo" and "find (\<lambda>u. team_id u = team_id t) ts = Some t"
    and "team_id t' = team_id t" and "position t' = position t"
  shows "order_inv (put_team t' ts) fo"
  using assms by (auto simp: order_inv_def find_put_team_eq)

lemma find_mem: "find P ts = Some t \<Longrightarrow> t \<in> set ts"
  by (induction ts) (auto split: if_splits)

lemma game_inv_record_activity:
  assumes inv: "game_inv g" and run: "record_activity_B g tid d c n title now = Inr (res, g')"
  shows "game_inv g'"
proof -
  from record_activity_B_frame [OF run] consider "g' = g"
    | t t' where "find_team g tid = Some t" "teams g' = put_team t' (teams g)"
       "finish_order g' = finish_order g" "team_id t' = team_id t"
       "position t' = position t" "finished_at t' = finished_at t" "score t \<le> score t'"
       "throw_granted_by_score t' = max (throw_granted_by_score t) (score t' div 40)"
       "throw_chance t' = throw_chance t + max 0 (score t' div 40 - throw_granted_by_score t)"
       "team_ok t \<longrightarrow> team_ok t'"
    by blast
  then show ?thesis
  proof cases
    case 1
    then show ?thesis using inv by simp
  next
    case 2
    have f: "find (\<lambda>u. team_id u = tid) (teams g) = Some t"
      using 2(1) by (simp add: find_team_def)
    have tid: "team_id t = tid"
      by (rule find_team_Some_id [OF 2(1)])
    have "t \<in> set (teams g)"
      by (rule find_mem [OF f])
    then have ti: "team_inv t"
      using inv by (simp add: game_inv_def list_all_iff)
    have "score t div 40 \<le> score t' div 40"
      using 2(7) by (rule zdiv_mono1) simp
    then have ti': "team_inv t'"
      using ti 2 by (simp add: team_inv_def)
    have "order_inv (put_team t' (teams g)) (finish_order g)"
      using inv f tid 2(4,5) by (intro order_inv_put_same [where t = t]) (simp_all add: game_inv_def)
    then show ?thesis
      using inv ti' 2(2,3) by (simp add: game_inv_def list_all_put_team)
  qed
qed

lemma order_inv_put_finish:
  assumes "order_inv ts fo" and "find (\<lambda>u. team_id u = tid) ts = Some t" and "position t \<noteq> 50"
    and "team_id t' = tid" and "position t' = 50"
  shows "order_inv (put_team t' ts) (fo @ [tid])"
  using assms by (auto simp: order_inv_def find_put_team_eq)

lemma order_inv_put_move:
  assumes "order_inv ts fo" and "find (\<lambda>u. team_id u = tid) ts = Some t" and "position t \<noteq> 50"
    and "team_id t' = tid" and "position t' \<noteq> 50"
  shows "order_inv (put_team t' ts) fo"
  using assms by (auto simp: order_inv_def find_put_team_eq)

lemma checkpoint_bounds: "0 \<le> p \<Longrightarrow> 0 \<le> (p div 10) * 10 \<and> (p div 10) * 10 \<le> (p::int)"
  by presburger

lemma team_inv_revert:
  assumes "list_all team_inv ts" and "0 \<le> p" and "p < 50"
  shows "list_all team_inv (revert_captured tid p ts)"
  using assms checkpoint_bounds [of p]
  by (auto simp: list_all_iff revert_captured_def team_inv_def shares_cell_def team_ok_def)

lemma order_inv_revert:
  assumes "order_inv ts fo" and "0 \<le> p" and "p < 50"
  shows "order_inv (revert_captured tid p ts) fo"
proof -
  let ?f = "\<lambda>u. if shares_cell tid p u then u\<lparr>position := (p div 10) * 10\<rparr> else u"
  have pos: "\<And>u. position (?f u) = 50 \<longleftrightarrow> position u = 50"
    using assms(2,3) checkpoint_bounds [of p] by (auto simp: shares_cell_def)
  have "\<And>x. (\<exists>t. find (\<lambda>u. team_id u = x) (revert_captured tid p ts) = Some t \<and> position t = 50) =
      (\<exists>t. find (\<lambda>u. team_id u = x) ts = Some t \<and> position t = 50)"
  proof -
    fix x
    show "(\<exists>t. find (\<lambda>u. team_id u = x) (revert_captured tid p ts) = Some t \<and> position t = 50) =
      (\<exists>t. find (\<lambda>u. team_id u = x) ts = Some t \<and> position t = 50)"
    proof (cases "find (\<lambda>u. team_id u = x) ts")
      case None
      then show ?thesis by (simp add: find_revert_eq)
    next
      case (Some u)
      then show ?thesis using pos [of u] by (simp add: find_revert_eq)
    qed
  qed
  then show ?thesis
    using assms(1) by (simp add: order_inv_def)
qed

lemma game_inv_throw:
  assumes inv: "game_inv g" and ne: "now \<noteq> []"
  shows "game_inv (snd (throw_yut g tid r now))"
proof (cases "failed (throw_yut g tid r now)")
  case True
  then show ?thesis using inv throw_yut_fails(2) [of g tid r now] by simp
next
  case False
  then have "\<not> invalid_throw g tid"
    by (simp add: throw_yut_fails(1))
  then obtain t where f: "find_team g tid = Some t" and nf: "\<not> truthy (finished_at t)"
    and tc: "0 < throw_chance t"
    by (auto simp: invalid_throw_def split: option.splits)
  have f': "find (\<lambda>u. team_id u = tid) (teams g) = Some t"
    using f by (simp add: find_team_def)
  have tid: "team_id t = tid"
    by (rule find_team_Some_id [OF f])
  have "t \<in> set (teams g)"
    by (rule find_mem [OF f'])
  then have ti: "team_inv t"
    using inv by (simp add: game_inv_def list_all_iff)
  have all: "list_all team_inv (teams g)" and oi: "order_inv (teams g) (finish_order g)"
    using inv by (simp_all add: game_inv_def)
  have none: "finished_at t = None"
    using nf ti by (cases "finished_at t") (auto simp: truthy_def team_inv_def)
  then have lt50: "position t \<noteq> 50" and tg: "throw_granted_by_score t = score t div 40"
    and ok: "team_ok t"
    using ti by (simp_all add: team_inv_def)
  define p where "p = max 0 (position t + step (draw_yut r))"
  have p0: "0 \<le> p" by (simp add: p_def)
  show ?thesis
  proof (cases "50 \<le> p")
    case True
    then have fp: "FINISH_POS \<le> max 0 (position t + step (draw_yut r))"
      by (simp add: FINISH_POS_def p_def)
    define t' where "t' = t\<lparr>throw_chance := throw_chance t - 1 + max 0 ((score t + 50) div 40 - throw_granted_by_score t)
                  + extra_throw (draw_yut r),
              position := 50, finished_at := Some now, score := score t + 50,
              throw_granted_by_score := max (throw_granted_by_score t) ((score t + 50) div 40)\<rparr>"
    from throw_yut_finish [OF f nf tc fp, of now] obtain g' where
      run: "snd (throw_yut g tid r now) = g'"
      and ts: "teams g' = put_team t' (teams g)"
      and fo: "finish_order g' = finish_order g @ [tid]"
      unfolding t'_def tid by auto
    have "score t div 40 \<le> (score t + 50) div 40"
      by (rule zdiv_mono1) simp_all
    then have ti': "team_inv t'"
      using ti ne by (simp add: team_inv_def t'_def team_ok_def)
    have "order_inv (put_team t' (teams g)) (finish_order g @ [tid])"
      using oi f' lt50 by (rule order_inv_put_finish) (simp_all add: t'_def tid)
    then show ?thesis
      using all ti' by (simp add: run game_inv_def ts fo list_all_put_team)
  next
    case False
    then have lt: "p < FINISH_POS" by (simp add: FINISH_POS_def)
    have lt': "p < 50" using False by simp
    define k where "k = (if 0 < p then captured_count (team_id t) p (teams g) else 0)"
    define t' where "t' = t\<lparr>throw_chance := throw_chance t - 1 + k
                  + (if 0 < k then max 0 ((score t + 30 * k) div 40 - throw_granted_by_score t) else 0)
                  + extra_throw (draw_yut r),
              position := p, score := score t + 30 * k,
              throw_granted_by_score :=
                (if 0 < k then max (throw_granted_by_score t) ((score t + 30 * k) div 40)
                 else throw_granted_by_score t)\<rparr>"
    define ts' where "ts' = (if 0 < k then revert_captured (team_id t) p (teams g) else teams g)"
    from throw_yut_move [OF f nf tc p_def lt k_def, of now] obtain g' where
      run: "snd (throw_yut g tid r now) = g'"
      and ts: "teams g' = put_team t' ts'"
      and fo: "finish_order g' = finish_order g"
      unfolding t'_def ts'_def by auto
    have k0: "0 \<le> k"
      by (simp add: k_def captured_count_def)
    then have "score t div 40 \<le> (score t + 30 * k) div 40"
      by (intro zdiv_mono1) simp_all
    moreover have "\<not> 0 < k \<Longrightarrow> k = 0"
      using k0 by simp
    ultimately have ti': "team_inv t'"
      using ti p0 lt' none by (auto simp: team_inv_def t'_def team_ok_def)
    have all': "list_all team_inv ts'"
      using all p0 lt' by (simp add: ts'_def team_inv_revert)
    have oi': "order_inv ts' (finish_order g)"
      using oi p0 lt' by (simp add: ts'_def order_inv_revert)
    have f'': "find (\<lambda>u. team_id u = tid) ts' = Some t"
      using f' tid by (simp add: ts'_def find_revert_captured)
    have pne: "p \<noteq> 50"
      using lt' by simp
    have "order_inv (put_team t' ts') (finish_order g)"
      using oi' f'' lt50 by (rule order_inv_put_move) (simp_all add: t'_def tid pne)
    then show ?thesis
      using all' ti' by (simp add: run game_inv_def ts fo list_all_put_team)
  qed
qed

lemma reachable_inv: "reachable g \<Longrightarrow> game_inv g"
proof (induction rule: reachable.induct)
  case fresh
  show ?case by (rule game_inv_fresh)
next
  case (team_added g nm new_id now)
  then show ?case by (simp add: game_inv_add_team)
next
  case (activity_recorded g tid d c n title now res g')
  then show ?case using game_inv_record_activity by blast
next
  case (thrown g now tid r)
  then show ?case by (simp add: game_inv_throw)
next
  case (was_reset g)
  show ?case by (rule game_inv_reset)
qed

lemma strip_letter: "strip (lit ''A'') = lit ''A''" "strip (lit ''B'') = lit ''B''"
  by (simp_all add: strip_def lit_def isspace_def)

lemma twin_start_teams:
  "teams twin_start = [new_team_B twin_id (lit ''A''), new_team_B twin_id (lit ''B'')]"
  by (simp add: twin_start_def add_team_B_def strip_letter new_game_B_def Let_def)
     (simp add: new_team_B_def lit_def)



lemma twin_b_fields:
  "team_id (new_team_B twin_id n) = twin_id" "position (new_team_B i n) = 0"
  "finished_at (new_team_B i n) = None"
  by (simp_all add: new_team_B_def)

lemma twin_scored_run:
  "record_activity_B twin_start twin_id (lit ''hard'') (lit ''talk'') 3 [] twin_now =
     Inr ((True, ActivityApplied), twin_scored) \<and>
   teams twin_scored =
     [(new_team_B twin_id (lit ''A''))
        \<lparr>score := 60, mission_count := 1,
         category_count := [(lit ''talk'', 1), (lit ''teamplay'', 0), (lit ''help'', 0), (lit ''challenge'', 0)],
         throw_chance := 1, throw_granted_by_score := 1\<rparr>,
      new_team_B twin_id (lit ''B'')]"
proof -
  let ?a = "new_team_B twin_id (lit ''A'')"
  let ?a1 = "?a\<lparr>score := score ?a + earned_points 30 3, mission_count := mission_count ?a + 1,
        category_count := AList.update (lit ''talk'') (0 + 1) (category_count ?a)\<rparr>"
  have f: "find_team twin_start twin_id = Some ?a"
    by (simp add: find_team_def twin_start_teams twin_b_fields)
  have d: "map_of DIFFICULTY_POINTS (lit ''hard'') = Some 30"
    by (simp add: DIFFICULTY_POINTS_def lit_def)
  have c: "lit ''talk'' \<in> set CATEGORIES"
    by (simp add: CATEGORIES_def)
  have k: "map_of (category_count ?a) (lit ''talk'') = Some 0"
    by (simp add: new_team_B_def CATEGORIES_def)
  have cb: "compute_bonus ?a1 = Inr (0, ?a1)"
    by (simp add: compute_bonus_def new_team_B_def CATEGORIES_def lit_def LINE_THRESHOLD_def)
  have run: "record_activity_B twin_start twin_id (lit ''hard'') (lit ''talk'') 3 [] twin_now =
    Inr ((True, ActivityApplied),
      save_B (add_log_B twin_now
        (ActivityLogged_B (name (snd (apply_score_throw_milestone ?a1))) (strip [])
           (earned_points 30 3) (lit ''hard'') (lit ''talk'') 3 0 (fst (apply_score_throw_milestone ?a1)))
        (twin_start\<lparr>teams := put_team (snd (apply_score_throw_milestone ?a1)) (teams twin_start)\<rparr>)))"
    by (rule record_activity_B_run [OF f d c _ k cb]) simp_all
  have e: "earned_points 30 3 = 60"
    by (simp add: earned_points_eq earned_spec_def)
  show ?thesis
    unfolding twin_scored_def run
    by (simp add: twin_start_teams milestone_result e twin_b_fields)
       (simp add: new_team_B_def CATEGORIES_def)
qed






lemma twin_scored_reachable: "reachable twin_scored"
proof -
  have "reachable twin_start"
    unfolding twin_start_def by (intro reachable.team_added reachable.fresh)
  then show ?thesis
    using twin_scored_run [THEN conjunct1] by (rule reachable.activity_recorded)
qed




text \<open>
  Claim C3. In every state reachable from a fresh game every team has
  \<open>throw_granted_by_score = score div 40\<close>. When \<open>throw_granted_by_score\<close> holds
  \<open>s div 40\<close> for the score \<open>s\<close> before a rise, \<open>apply_score_throw_milestone\<close> returns
  \<open>score div 40 - s div 40\<close> when that is positive and 0 otherwise, adds it to
  \<open>throw_chance\<close> and stores the new tier; it never lowers either field.
\<close>

theorem milestone_tracks_score:
  assumes "reachable g" and "t \<in> set (teams g)" and "throw_granted_by_score u = s div 40"
  shows "throw_granted_by_score t = score t div 40 \<and>
     apply_score_throw_milestone u =
       (max 0 (score u div 40 - s div 40),
        u\<lparr>throw_granted_by_score := max (s div 40) (score u div 40),
          throw_chance := throw_chance u + max 0 (score u div 40 - s div 40)\<rparr>) \<and>
     throw_chance u \<le> throw_chance (snd (apply_score_throw_milestone u)) \<and>
     throw_granted_by_score u \<le> throw_granted_by_score (snd (apply_score_throw_milestone u))"
proof -
  have "team_inv t"
    using reachable_inv [OF assms(1)] assms(2) by (simp add: game_inv_def list_all_iff)
  then have "throw_granted_by_score t = score t div 40"
    by (simp add: team_inv_def)
  then show ?thesis
    using assms(3) by (simp add: milestone_result)
qed

theorem milestone_tracks_score_witness:
  "reachable twin_scored \<and>
   (new_team_B twin_id (lit ''A''))
        \<lparr>score := 60, mission_count := 1,
         category_count := [(lit ''talk'', 1), (lit ''teamplay'', 0), (lit ''help'', 0), (lit ''challenge'', 0)],
         throw_chance := 1, throw_granted_by_score := 1\<rparr> \<in> set (teams twin_scored) \<and>
   throw_granted_by_score ((new_team_B twin_id (lit ''A''))\<lparr>score := 75\<rparr>) = 35 div 40 \<and>
   apply_score_throw_milestone ((new_team_B twin_id (lit ''A''))\<lparr>score := 75\<rparr>) =
     (1, (new_team_B twin_id (lit ''A''))\<lparr>score := 75, throw_granted_by_score := 1, throw_chance := 1\<rparr>)"
proof -
  let ?t = "(new_team_B twin_id (lit ''A''))
        \<lparr>score := 60, mission_count := 1,
         category_count := [(lit ''talk'', 1), (lit ''teamplay'', 0), (lit ''help'', 0), (lit ''challenge'', 0)],
         throw_chance := 1, throw_granted_by_score := 1\<rparr>"
  let ?u = "(new_team_B twin_id (lit ''A''))\<lparr>score := 75\<rparr>"
  have h1: "reachable twin_scored"
    by (rule twin_scored_reachable)
  have h2: "?t \<in> set (teams twin_scored)"
    using twin_scored_run by simp
  have h3: "throw_granted_by_score ?u = 35 div 40"
    by (simp add: new_team_B_def)
  from milestone_tracks_score [OF h1 h2 h3] have
    "apply_score_throw_milestone ?u =
       (max 0 (score ?u div 40 - 35 div 40),
        ?u\<lparr>throw_granted_by_score := max (35 div 40) (score ?u div 40),
          throw_chance := throw_chance ?u + max 0 (score ?u div 40 - 35 div 40)\<rparr>)"
    by simp
  then have "apply_score_throw_milestone ?u =
     (1, (new_team_B twin_id (lit ''A''))\<lparr>score := 75, throw_granted_by_score := 1, throw_chance := 1\<rparr>)"
    by (simp add: new_team_B_def)
  then show ?thesis
    using h1 h2 h3 by (intro conjI)
qed



text \<open>
  Claim C10. For a team whose \<open>finished_at\<close> is set, \<open>record_activity\<close> of variant B with
  valid arguments succeeds as for any team: score, mission count and the category count
  grow, the position and \<open>finished_at\<close> stay, and \<open>throw_chance\<close> grows by the tiers of 40
  that the new score has reached; \<open>throw_yut\<close> rejects the team before and after, so the
  chances cannot be spent.
\<close>

theorem finished_team_still_scores:
  assumes f: "find_team g tid = Some t" and fin: "truthy (finished_at t)" and ok: "team_ok t"
    and d: "(d, dp) \<in> set DIFFICULTY_POINTS" and c: "c \<in> set CATEGORIES" and n: "1 \<le> n"
  shows "\<exists>g' t'. record_activity_B g tid d c n title now = Inr ((True, ActivityApplied), g') \<and>
     find_team g' tid = Some t' \<and> activity_added t c dp n t' \<and>
     score t + 20 \<le> score t' \<and>
     position t' = position t \<and> finished_at t' = finished_at t \<and>
     throw_chance t' = throw_chance t + max 0 (score t' div 40 - throw_granted_by_score t) \<and>
     throw_yut g tid r now' = ((False, AlreadyFinished), g) \<and>
     throw_yut g' tid r now' = ((False, AlreadyFinished), g')"
proof -
  from record_activity_B_adds [OF f ok d c n, of title now] obtain g' t' where
    run: "record_activity_B g tid d c n title now = Inr ((True, ActivityApplied), g')"
    and f': "find_team g' tid = Some t'" and added: "activity_added t c dp n t'"
    by blast
  from record_activity_B_frame [OF run] f have
    "g' = g \<or> (\<exists>t''. teams g' = put_team t'' (teams g) \<and> team_id t'' = team_id t \<and>
       position t'' = position t \<and> finished_at t'' = finished_at t \<and>
       throw_chance t'' = throw_chance t + max 0 (score t'' div 40 - throw_granted_by_score t))"
    by auto
  moreover have "g' \<noteq> g"
  proof
    assume "g' = g"
    then have "t' = t" using f f' by simp
    then show False using added by (simp add: activity_added_def)
  qed
  ultimately obtain t'' where ts: "teams g' = put_team t'' (teams g)" and id: "team_id t'' = team_id t"
    and keep: "position t'' = position t" "finished_at t'' = finished_at t"
      "throw_chance t'' = throw_chance t + max 0 (score t'' div 40 - throw_granted_by_score t)"
    by blast
  have "find (\<lambda>u. team_id u = tid) (teams g) = Some t"
    using f by (simp add: find_team_def)
  then have "find_team g' tid = Some t''"
    using id by (rule find_team_teams [OF ts])
  then have same: "t'' = t'"
    using f' by simp
  have dp: "10 \<le> dp"
    using d by (auto simp: DIFFICULTY_POINTS_def)
  have "score t' = score t + earned_spec dp n + bonus_spec (counted t c)"
    using added by (simp add: activity_added_def)
  moreover have "0 \<le> max 0 (n - 2) * 20"
    by simp
  ultimately have sc: "score t + 20 \<le> score t'"
    using dp bonus_spec_nonneg [of "counted t c"] unfolding earned_spec_def by linarith
  have fin': "truthy (finished_at t')"
    using fin keep same by simp
  show ?thesis
    using run f' added sc keep [unfolded same]
      throw_yut_rejects_finished [OF f fin, of r now']
      throw_yut_rejects_finished [OF f' fin', of r now']
    by blast
qed

theorem finished_team_still_scores_witness:
  "find_team (new_game_B\<lparr>teams := [finished_scorer], finish_order := [lit ''team_1_1000'']\<rparr>)
     (lit ''team_1_1000'') = Some finished_scorer \<and>
   truthy (finished_at finished_scorer) \<and> team_ok finished_scorer \<and>
   (lit ''hard'', 30) \<in> set DIFFICULTY_POINTS \<and> lit ''talk'' \<in> set CATEGORIES \<and> (1::int) \<le> 2 \<and>
   (\<exists>g' t'. record_activity_B (new_game_B\<lparr>teams := [finished_scorer], finish_order := [lit ''team_1_1000'']\<rparr>)
        (lit ''team_1_1000'') (lit ''hard'') (lit ''talk'') 2 [] (lit ''2026-01-01T00:05:00'') =
        Inr ((True, ActivityApplied), g') \<and>
      find_team g' (lit ''team_1_1000'') = Some t' \<and> score t' = 150 \<and> position t' = 50 \<and>
      throw_chance t' = 3 \<and>
      throw_yut g' (lit ''team_1_1000'') 95 (lit ''2026-01-01T00:06:00'') = ((False, AlreadyFinished), g'))"
proof -
  let ?g = "new_game_B\<lparr>teams := [finished_scorer], finish_order := [lit ''team_1_1000'']\<rparr>"
  have h1: "find_team ?g (lit ''team_1_1000'') = Some finished_scorer"
    by (simp add: find_team_def finished_scorer_def new_team_B_def)
  have h2: "truthy (finished_at finished_scorer)"
    by (simp add: truthy_def finished_scorer_def lit_def)
  have h3: "team_ok finished_scorer"
    by (simp add: team_ok_def has_categories_def finished_scorer_def new_team_B_def CATEGORIES_def lit_def)
  have h4: "(lit ''hard'', 30) \<in> set DIFFICULTY_POINTS"
    by (simp add: DIFFICULTY_POINTS_def)
  have h5: "lit ''talk'' \<in> set CATEGORIES"
    by (simp add: CATEGORIES_def)
  have h6: "(1::int) \<le> 2" by simp
  have v: "earned_spec 30 2 = 40" "bonus_spec (counted finished_scorer (lit ''talk'')) = 0"
    "score finished_scorer = 110" "position finished_scorer = 50" "throw_chance finished_scorer = 2"
    "throw_granted_by_score finished_scorer = 2"
    by (simp_all add: earned_spec_def bonus_spec_def counted_def set_gain_def all_done_def
        line_gain_def tier_def lookup_def finished_scorer_def new_team_B_def CATEGORIES_def lit_def)
  from finished_team_still_scores [OF h1 h2 h3 h4 h5 h6,
      of "[]" "lit ''2026-01-01T00:05:00''" 95 "lit ''2026-01-01T00:06:00''"]
  obtain g' t' where
    "record_activity_B ?g (lit ''team_1_1000'') (lit ''hard'') (lit ''talk'') 2 []
        (lit ''2026-01-01T00:05:00'') = Inr ((True, ActivityApplied), g')"
    "find_team g' (lit ''team_1_1000'') = Some t'" "score t' = 150" "position t' = 50"
    "throw_chance t' = 2 + max 0 (score t' div 40 - 2)"
    "throw_yut g' (lit ''team_1_1000'') 95 (lit ''2026-01-01T00:06:00'') = ((False, AlreadyFinished), g')"
    unfolding activity_added_def v by auto
  then show ?thesis
    using h1 h2 h3 h4 h5 h6 by (intro conjI exI [of _ g'] exI [of _ t']) simp_all
qed

section \<open>The ranked view\<close>











section \<open>Properties of loading\<close>









end
